theory Spec2Isabelle
  imports Main
begin

section \<open>Filename sanitizer\<close>

text \<open>
  A Python \<^verbatim>\<open>str\<close> is modelled as a \<^typ>\<open>string\<close>. The table is read with
  \<^verbatim>\<open>encoding="latin1"\<close>, so every character of a title or of a poster URL is one of
  the 256 code points that \<^typ>\<open>char\<close> has, and \<^const>\<open>length\<close> counts what Python's
  \<^verbatim>\<open>len\<close> counts.

  \<^verbatim>\<open>SAFE_CHARS = re.compile(r"[^A-Za-z0-9._-]+")\<close>: a character is safe when the
  negated class does not match it.
\<close>

definition in_range :: "char \<Rightarrow> char \<Rightarrow> char \<Rightarrow> bool" where
  "in_range lo hi c \<longleftrightarrow> (of_char lo :: nat) \<le> of_char c \<and> (of_char c :: nat) \<le> of_char hi"

definition safe_char :: "char \<Rightarrow> bool" where
  "safe_char c \<longleftrightarrow>
     in_range (CHR ''A'') (CHR ''Z'') c \<or> in_range (CHR ''a'') (CHR ''z'') c \<or>
     in_range (CHR ''0'') (CHR ''9'') c \<or> c = CHR ''.'' \<or> c = CHR ''_'' \<or> c = CHR ''-''"

text \<open>
  \<^verbatim>\<open>SAFE_CHARS.sub("_", name)\<close>: the pattern ends in \<^verbatim>\<open>+\<close>, so a match is a maximal
  run of unsafe characters, and each run (not each character) becomes one underscore.
\<close>

function sub_unsafe :: "string \<Rightarrow> string" where
  "sub_unsafe [] = []"
| "sub_unsafe (c # cs) =
     (if safe_char c then c # sub_unsafe cs
      else CHR ''_'' # sub_unsafe (dropWhile (\<lambda>d. \<not> safe_char d) cs))"
  by pat_completeness auto
termination
  by (relation "measure length") (simp_all add: less_Suc_eq_le length_dropWhile_le)

text \<open>
  The slice \<^verbatim>\<open>s[:n]\<close> for a Python \<^verbatim>\<open>int\<close>: a negative \<open>n\<close> counts from the end
  of the string, and the end index is clamped at 0.
\<close>

definition slice_to :: "int \<Rightarrow> 'a list \<Rightarrow> 'a list" where
  "slice_to n xs = (if 0 \<le> n then take (nat n) xs else take (nat (int (length xs) + n)) xs)"

definition sanitize_filename :: "string \<Rightarrow> int \<Rightarrow> string" where
  "sanitize_filename name max_len = slice_to max_len (sub_unsafe name) @ ''.jpg''"

section \<open>Exceptions, outcomes and the failure record\<close>

text \<open>
  The exceptions the two handlers of \<^verbatim>\<open>fetch_image\<close> tell apart: a subclass of
  \<^verbatim>\<open>aiohttp.ClientError\<close> (with its class name), \<^verbatim>\<open>asyncio.TimeoutError\<close>, and any
  other subclass of \<^verbatim>\<open>Exception\<close> (with its class name). Network and file operations
  raise nothing outside \<^verbatim>\<open>Exception\<close>; cancellation is not modelled.
\<close>

datatype exn = ClientError string | TimeoutError | OtherException string

text \<open>\<^verbatim>\<open>type(e).__name__\<close>\<close>

fun type_name :: "exn \<Rightarrow> string" where
  "type_name (ClientError n) = n"
| "type_name TimeoutError = ''TimeoutError''"
| "type_name (OtherException n) = n"

text \<open>\<^verbatim>\<open>except (aiohttp.ClientError, asyncio.TimeoutError)\<close> matches.\<close>

fun is_transport :: "exn \<Rightarrow> bool" where
  "is_transport (ClientError n) = True"
| "is_transport TimeoutError = True"
| "is_transport (OtherException n) = False"

text \<open>
  A coroutine returns a value, raises, or stays suspended at the semaphore (no permit is
  free and, in this sequential model, nobody else will release one).
\<close>

datatype 'a outcome = Returned 'a | Raised exn | Suspended

text \<open>
  The \<^verbatim>\<open>Poster\<close> cell of a row: a string, or the float NaN pandas puts in an empty cell
  (\<^verbatim>\<open>pd.isna(url)\<close>).
\<close>

datatype url_value = NaN | Str string

text \<open>The dict \<^verbatim>\<open>record\<close> that \<^verbatim>\<open>log_failure\<close> builds, with its four keys.\<close>

record failure_record =
  rec_title :: string
  rec_url :: url_value
  rec_reason :: string
  rec_traceback :: "string option"

section \<open>Serialisation of a failure record\<close>

text \<open>
  \<^verbatim>\<open>json.dumps(record, ensure_ascii=False)\<close> on a dict of four string keys whose values
  are strings, \<^verbatim>\<open>None\<close> or the float NaN. A string is quoted and escaped as the standard
  library's \<^verbatim>\<open>encode_basestring\<close> does: backslash, double quote and the control
  characters below 0x20 are escaped, everything else is written as it is. Items are
  separated by \<^verbatim>\<open>", "\<close> and a key from its value by \<^verbatim>\<open>": "\<close>; NaN is written as the
  bare token \<^verbatim>\<open>NaN\<close> and \<^verbatim>\<open>None\<close> as \<^verbatim>\<open>null\<close>.
\<close>

abbreviation dq :: char where "dq \<equiv> CHR 0x22"
abbreviation bsl :: char where "bsl \<equiv> CHR 0x5C"
abbreviation newline :: char where "newline \<equiv> CHR 0x0A"

definition hex_digit :: "nat \<Rightarrow> char" where
  "hex_digit n = ''0123456789abcdef'' ! n"

definition escape_char :: "char \<Rightarrow> string" where
  "escape_char c =
     (if c = bsl then [bsl, bsl]
      else if c = dq then [bsl, dq]
      else if c = CHR 0x08 then [bsl, CHR ''b'']
      else if c = CHR 0x0C then [bsl, CHR ''f'']
      else if c = newline then [bsl, CHR ''n'']
      else if c = CHR 0x0D then [bsl, CHR ''r'']
      else if c = CHR 0x09 then [bsl, CHR ''t'']
      else if (of_char c :: nat) < 0x20 then
        [bsl, CHR ''u'', CHR ''0'', CHR ''0'',
         hex_digit (of_char c div 16), hex_digit (of_char c mod 16)]
      else [c])"

definition encode_basestring :: "string \<Rightarrow> string" where
  "encode_basestring s = dq # concat (map escape_char s) @ [dq]"

fun dumps_url :: "url_value \<Rightarrow> string" where
  "dumps_url NaN = ''NaN''"
| "dumps_url (Str s) = encode_basestring s"

fun dumps_optional :: "string option \<Rightarrow> string" where
  "dumps_optional None = ''null''"
| "dumps_optional (Some s) = encode_basestring s"

definition json_dumps :: "failure_record \<Rightarrow> string" where
  "json_dumps r =
     ''{'' @ encode_basestring ''title'' @ '': '' @ encode_basestring (rec_title r) @ '', '' @
     encode_basestring ''url'' @ '': '' @ dumps_url (rec_url r) @ '', '' @
     encode_basestring ''reason'' @ '': '' @ encode_basestring (rec_reason r) @ '', '' @
     encode_basestring ''traceback'' @ '': '' @ dumps_optional (rec_traceback r) @ ''}''"

section \<open>The world of a run and its environment\<close>

text \<open>
  What the coroutines act on: the files under \<^verbatim>\<open>IMAGE_DIR\<close> (path to contents), the text
  of \<^verbatim>\<open>FAILED_JSONL\<close>, the free permits of the semaphore, and, as a ghost variable, the
  sequence of effects performed so far.
\<close>

datatype event =
    EvRecord failure_record
  | EvAcquire
  | EvRelease
  | EvGet string
  | EvRead string
  | EvOpen string
  | EvWrite string string

record world =
  files :: "string \<Rightarrow> string option"
  faillog :: string
  permits :: nat
  trace :: "event list"

text \<open>
  What the outside answers to one invocation of \<^verbatim>\<open>fetch_image\<close>: whether appending a
  given record to the failure log raises, and after how many characters of its line
  reached the file; what \<^verbatim>\<open>session.get(url)\<close> gives (an exception
  or the response status); what \<^verbatim>\<open>resp.read()\<close> gives (an exception or the body);
  whether opening the image file raises; whether writing it raises, and after how many
  bytes; and the text of \<^verbatim>\<open>traceback.format_exc()\<close>. An invocation asks each question at
  most once (the log at most twice, for two different records), so every behaviour of one
  invocation is the behaviour under some environment.
\<close>

record env =
  append_fails :: "failure_record \<Rightarrow> (exn \<times> nat) option"
  http_get :: "string \<Rightarrow> exn + nat"
  http_read :: "string \<Rightarrow> exn + string"
  open_fails :: "string \<Rightarrow> exn option"
  write_fails :: "string \<Rightarrow> string \<Rightarrow> (exn \<times> nat) option"
  format_exc :: "exn \<Rightarrow> string"

section \<open>The failure recorder\<close>

text \<open>
  \<^verbatim>\<open>log_failure\<close> has no handler of its own: when opening, writing or closing the log
  raises, the exception leaves the coroutine. The file is opened for appending, so the log
  then holds the characters of the line that went through before the exception: none
  when the file could not be opened, a torn record when the write stopped half way, the
  whole line when only closing the file raised.
\<close>

definition log_failure ::
  "env \<Rightarrow> string \<Rightarrow> url_value \<Rightarrow> string \<Rightarrow> string option \<Rightarrow> world \<Rightarrow> unit outcome \<times> world" where
  "log_failure E title url reason tb w =
     (let r = \<lparr>rec_title = title, rec_url = url, rec_reason = reason, rec_traceback = tb\<rparr>;
          w1 = w\<lparr>trace := trace w @ [EvRecord r]\<rparr>
      in case append_fails E r of
           Some (e, k) \<Rightarrow>
             (Raised e, w1\<lparr>faillog := faillog w1 @ take k (json_dumps r @ [newline])\<rparr>)
         | None \<Rightarrow> (Returned (), w1\<lparr>faillog := faillog w1 @ json_dumps r @ [newline]\<rparr>))"

section \<open>The fetch worker\<close>

text \<open>\<^verbatim>\<open>await log_failure(...)\<close> followed by \<^verbatim>\<open>return v\<close>.\<close>

fun and_return :: "'b \<Rightarrow> unit outcome \<times> world \<Rightarrow> 'b outcome \<times> world" where
  "and_return v (Returned u, w) = (Returned v, w)"
| "and_return v (Raised e, w) = (Raised e, w)"
| "and_return v (Suspended, w) = (Suspended, w)"

text \<open>\<^verbatim>\<open>str.startswith\<close>\<close>

definition startswith :: "string \<Rightarrow> string \<Rightarrow> bool" where
  "startswith s p \<longleftrightarrow> take (length p) s = p"

text \<open>\<^verbatim>\<open>pd.isna(url) or not url.startswith("http")\<close>\<close>

fun invalid_url :: "url_value \<Rightarrow> bool" where
  "invalid_url NaN = True"
| "invalid_url (Str u) = (\<not> startswith u ''http'')"

text \<open>\<^verbatim>\<open>str(IMAGE_DIR / filename)\<close>, with the separator of a POSIX path.\<close>

definition image_path :: "string \<Rightarrow> string" where
  "image_path title = ''poster_images/'' @ sanitize_filename title 100"

text \<open>\<^verbatim>\<open>f"http_status_{resp.status}"\<close> needs the decimal digits of the status.\<close>

fun str_nat :: "nat \<Rightarrow> string" where
  "str_nat n =
     (if n < 10 then [''0123456789'' ! n]
      else str_nat (n div 10) @ [''0123456789'' ! (n mod 10)])"

declare str_nat.simps [simp del]

text \<open>
  The body of the \<^verbatim>\<open>try\<close>: the request, the status test with its early return, the
  read of the body, and the write of the file (opening it truncates it; a write that
  fails leaves the bytes that went through).
\<close>

definition download ::
  "env \<Rightarrow> string \<Rightarrow> string \<Rightarrow> 's \<Rightarrow> world \<Rightarrow> (string \<times> 's) option outcome \<times> world" where
  "download E title u score w =
     (let w1 = w\<lparr>trace := trace w @ [EvGet u]\<rparr> in
      case http_get E u of
        Inl e \<Rightarrow> (Raised e, w1)
      | Inr status \<Rightarrow>
          if status \<noteq> 200 then
            and_return None (log_failure E title (Str u) (''http_status_'' @ str_nat status) None w1)
          else
            (let w2 = w1\<lparr>trace := trace w1 @ [EvRead u]\<rparr> in
             case http_read E u of
               Inl e \<Rightarrow> (Raised e, w2)
             | Inr content \<Rightarrow>
                 (let w3 = w2\<lparr>trace := trace w2 @ [EvOpen (image_path title)]\<rparr> in
                  case open_fails E (image_path title) of
                    Some e \<Rightarrow> (Raised e, w3)
                  | None \<Rightarrow>
                      (case write_fails E (image_path title) content of
                         Some (e, k) \<Rightarrow>
                           (Raised e,
                            w3\<lparr>files := (files w3)(image_path title \<mapsto> take k content),
                                trace := trace w3 @ [EvWrite (image_path title) (take k content)]\<rparr>)
                       | None \<Rightarrow>
                           (Returned (Some (image_path title, score)),
                            w3\<lparr>files := (files w3)(image_path title \<mapsto> content),
                                trace := trace w3 @ [EvWrite (image_path title) content]\<rparr>)))))"

text \<open>
  The two \<^verbatim>\<open>except\<close> clauses and the \<^verbatim>\<open>return None\<close> after them. An exception raised
  by \<^verbatim>\<open>log_failure\<close> inside a handler is not handled again.
\<close>

definition handle_errors ::
  "env \<Rightarrow> string \<Rightarrow> url_value \<Rightarrow> 'a option outcome \<times> world \<Rightarrow> 'a option outcome \<times> world" where
  "handle_errors E title url rw =
     (case rw of
        (Raised e, w) \<Rightarrow>
          if is_transport e then and_return None (log_failure E title url (type_name e) None w)
          else and_return None
                 (log_failure E title url (''unexpected_'' @ type_name e) (Some (format_exc E e)) w)
      | (Returned v, w) \<Rightarrow> (Returned v, w)
      | (Suspended, w) \<Rightarrow> (Suspended, w))"

text \<open>
  \<^verbatim>\<open>async with sem:\<close> takes a permit before the body and gives it back after it,
  whatever the body did.
\<close>

definition with_sem :: "(world \<Rightarrow> 'a outcome \<times> world) \<Rightarrow> world \<Rightarrow> 'a outcome \<times> world" where
  "with_sem body w =
     (if permits w = 0 then (Suspended, w)
      else
        (case body (w\<lparr>permits := permits w - 1, trace := trace w @ [EvAcquire]\<rparr>) of
           (r, w1) \<Rightarrow> (r, w1\<lparr>permits := permits w1 + 1, trace := trace w1 @ [EvRelease]\<rparr>)))"

definition fetch_image ::
  "env \<Rightarrow> string \<Rightarrow> url_value \<Rightarrow> 's \<Rightarrow> world \<Rightarrow> (string \<times> 's) option outcome \<times> world" where
  "fetch_image E title url score w =
     (case url of
        NaN \<Rightarrow> and_return None (log_failure E title url ''invalid_or_missing_url'' None w)
      | Str u \<Rightarrow>
          if \<not> startswith u ''http'' then
            and_return None (log_failure E title url ''invalid_or_missing_url'' None w)
          else
            with_sem (\<lambda>w1. handle_errors E title url (download E title u score w1)) w)"

section \<open>The scheduler\<close>

text \<open>
  A row of the table, and \<^verbatim>\<open>gather\<close> over one task per row. The tasks are run one
  after the other in row order, each against its own environment \<open>Es i\<close>; the list that
  \<^verbatim>\<open>gather\<close> returns has the tasks' results in row order, and the first exception a
  task raises leaves \<^verbatim>\<open>gather\<close>. What the other tasks do after that is not modelled.
\<close>

record 's row =
  row_title :: string
  poster :: url_value
  imdb_score :: 's

definition CONCURRENCY :: nat where
  "CONCURRENCY = 500"

fun gather ::
  "(nat \<Rightarrow> env) \<Rightarrow> nat \<Rightarrow> 's row list \<Rightarrow> world \<Rightarrow> (string \<times> 's) option list outcome \<times> world" where
  "gather Es i [] w = (Returned [], w)"
| "gather Es i (r # rows) w =
     (case fetch_image (Es i) (row_title r) (poster r) (imdb_score r) w of
        (Returned v, w1) \<Rightarrow>
          (case gather Es (Suc i) rows w1 of
             (Returned vs, w2) \<Rightarrow> (Returned (v # vs), w2)
           | (Raised e, w2) \<Rightarrow> (Raised e, w2)
           | (Suspended, w2) \<Rightarrow> (Suspended, w2))
      | (Raised e, w1) \<Rightarrow> (Raised e, w1)
      | (Suspended, w1) \<Rightarrow> (Suspended, w1))"

text \<open>
  \<^verbatim>\<open>scrape_all\<close> makes the semaphore and keeps the results that are not \<^verbatim>\<open>None\<close>.
\<close>

definition scrape_all ::
  "(nat \<Rightarrow> env) \<Rightarrow> 's row list \<Rightarrow> world \<Rightarrow> (string \<times> 's) list outcome \<times> world" where
  "scrape_all Es df w =
     (case gather Es 0 df (w\<lparr>permits := CONCURRENCY\<rparr>) of
        (Returned vs, w1) \<Rightarrow> (Returned (map the (filter (\<lambda>v. v \<noteq> None) vs)), w1)
      | (Raised e, w1) \<Rightarrow> (Raised e, w1)
      | (Suspended, w1) \<Rightarrow> (Suspended, w1))"

text \<open>The events of the semaphore.\<close>

fun is_gate :: "event \<Rightarrow> bool" where
  "is_gate EvAcquire = True"
| "is_gate EvRelease = True"
| "is_gate e = False"

text \<open>The events an invocation added to the trace.\<close>

definition new_events :: "world \<Rightarrow> world \<Rightarrow> event list" where
  "new_events w w' = drop (length (trace w)) (trace w')"

text \<open>How often an invocation called \<^verbatim>\<open>log_failure\<close>.\<close>

fun is_record_ev :: "event \<Rightarrow> bool" where
  "is_record_ev (EvRecord r) = True"
| "is_record_ev e = False"

definition recorder_calls :: "world \<Rightarrow> world \<Rightarrow> nat" where
  "recorder_calls w w' = length (filter is_record_ev (new_events w w'))"

text \<open>
  A line of the failure log that describes the row with this title and URL, and the log
  grown by one such line.
\<close>

definition failure_line :: "string \<Rightarrow> url_value \<Rightarrow> string \<Rightarrow> bool" where
  "failure_line title url l \<longleftrightarrow>
     (\<exists>reason tb. l = json_dumps \<lparr>rec_title = title, rec_url = url, rec_reason = reason,
                                   rec_traceback = tb\<rparr> @ [newline])"

definition logged_once :: "string \<Rightarrow> url_value \<Rightarrow> world \<Rightarrow> world \<Rightarrow> bool" where
  "logged_once title url w w' \<longleftrightarrow>
     (\<exists>reason tb. faillog w' = faillog w @
        json_dumps \<lparr>rec_title = title, rec_url = url, rec_reason = reason, rec_traceback = tb\<rparr> @ [newline])"


section \<open>Yardsticks for the logged text\<close>

text \<open>
  The number a string of decimal digits denotes. \<^verbatim>\<open>f"http_status_{resp.status}"\<close>
  writes the status as Python writes an \<^verbatim>\<open>int\<close>: decimal digits only, no leading
  zero, denoting the status.
\<close>

definition decimal_value :: "string \<Rightarrow> nat" where
  "decimal_value s = foldl (\<lambda>a c. 10 * a + (of_char c - 48)) 0 s"

text \<open>
  The characters a JSON value can begin with (RFC 8259, section 3: a value is
  \<^verbatim>\<open>false\<close>, \<^verbatim>\<open>null\<close>, \<^verbatim>\<open>true\<close>, an object, an array, a number or a string).
\<close>

definition json_value_start :: "char \<Rightarrow> bool" where
  "json_value_start c \<longleftrightarrow>
     c = CHR ''f'' \<or> c = CHR ''n'' \<or> c = CHR ''t'' \<or> c = CHR ''{'' \<or> c = CHR ''['' \<or>
     c = CHR ''-'' \<or> in_range (CHR ''0'') (CHR ''9'') c \<or> c = dq"

section \<open>Concrete environments\<close>

text \<open>A server that answers 200 with a body, a disk and a log that accept every write.\<close>

definition env_ok :: env where
  "env_ok =
     \<lparr>append_fails = (\<lambda>r. None), http_get = (\<lambda>u. Inr 200), http_read = (\<lambda>u. Inr ''JFIF''),
      open_fails = (\<lambda>p. None), write_fails = (\<lambda>p c. None),
      format_exc = (\<lambda>e. ''Traceback (most recent call last)'')\<rparr>"

text \<open>The same, with a failure log that cannot be opened.\<close>

definition env_log_down :: env where
  "env_log_down = env_ok\<lparr>append_fails := (\<lambda>r. Some (OtherException ''PermissionError'', 0))\<rparr>"

text \<open>
  A server that answers 404, and a log whose first write for the row stops after 22
  characters.
\<close>

definition env_404_retry :: env where
  "env_404_retry =
     env_ok\<lparr>http_get := (\<lambda>u. Inr 404),
            append_fails := (\<lambda>r. if rec_reason r = ''http_status_404''
                                  then Some (OtherException ''OSError'', 22) else None)\<rparr>"

definition world0 :: world where
  "world0 = \<lparr>files = (\<lambda>p. None), faillog = [], permits = CONCURRENCY, trace = []\<rparr>"

text \<open>
  Servers that answer 404, that are refused by the client, and that time out; and a table
  of two rows, the second without a poster.
\<close>

definition env_404 :: env where
  "env_404 = env_ok\<lparr>http_get := (\<lambda>u. Inr 404)\<rparr>"

definition env_bad_url :: env where
  "env_bad_url = env_ok\<lparr>http_get := (\<lambda>u. Inl (ClientError ''InvalidURL''))\<rparr>"

definition env_timeout :: env where
  "env_timeout = env_ok\<lparr>http_get := (\<lambda>u. Inl TimeoutError)\<rparr>"


definition table_demo :: "nat row list" where
  "table_demo =
     [\<lparr>row_title = ''Up'', poster = Str ''http://img/up.jpg'', imdb_score = 8\<rparr>,
      \<lparr>row_title = ''Lost Reel'', poster = NaN, imdb_score = 5\<rparr>]"

section \<open>Properties of the sanitizer\<close>

lemma safe_underscore: "safe_char (CHR ''_'')"
  by (simp add: safe_char_def)

lemma sub_unsafe_safe: "c \<in> set (sub_unsafe name) \<Longrightarrow> safe_char c"
proof (induction name rule: sub_unsafe.induct)
  case 1
  then show ?case by simp
next
  case (2 d ds)
  show ?case
  proof (cases "safe_char d")
    case True
    with 2 show ?thesis by auto
  next
    case False
    with 2 safe_underscore show ?thesis by auto
  qed
qed

lemma sub_unsafe_length: "length (sub_unsafe name) \<le> length name"
proof (induction name rule: sub_unsafe.induct)
  case 1
  show ?case by simp
next
  case (2 c cs)
  have "length (dropWhile (\<lambda>d. \<not> safe_char d) cs) \<le> length cs"
    by (rule length_dropWhile_le)
  with 2 show ?case by (cases "safe_char c") simp_all
qed

lemma dropWhile_unsafe_run:
  assumes "\<forall>u \<in> set us. \<not> safe_char u" and "rest = [] \<or> safe_char (hd rest)"
  shows "dropWhile (\<lambda>d. \<not> safe_char d) (us @ rest) = rest"
proof -
  have "dropWhile (\<lambda>d. \<not> safe_char d) (us @ rest) = dropWhile (\<lambda>d. \<not> safe_char d) rest"
    using assms(1) by (simp add: dropWhile_append)
  also have "\<dots> = rest"
    using assms(2) by (cases rest) auto
  finally show ?thesis .
qed

lemma sub_unsafe_run:
  assumes "us \<noteq> []" and "\<forall>u \<in> set us. \<not> safe_char u" and "rest = [] \<or> safe_char (hd rest)"
  shows "sub_unsafe (us @ rest) = CHR ''_'' # sub_unsafe rest"
proof -
  obtain u us' where us: "us = u # us'" using assms(1) by (cases us) auto
  have "dropWhile (\<lambda>d. \<not> safe_char d) (us' @ rest) = rest"
    using assms(2,3) us by (intro dropWhile_unsafe_run) auto
  with assms(2) us show ?thesis by simp
qed

lemma sub_unsafe_all_safe: "\<forall>c \<in> set name. safe_char c \<Longrightarrow> sub_unsafe name = name"
  by (induction name) simp_all

lemma dropWhile_unsafe_append:
  assumes "cs \<noteq> []" and "safe_char (last cs)"
  shows "dropWhile (\<lambda>d. \<not> safe_char d) (cs @ ys) = dropWhile (\<lambda>d. \<not> safe_char d) cs @ ys"
    and "dropWhile (\<lambda>d. \<not> safe_char d) cs \<noteq> []"
    and "last (dropWhile (\<lambda>d. \<not> safe_char d) cs) = last cs"
proof -
  have mem: "last cs \<in> set cs" using assms(1) by simp
  have nn: "\<not> \<not> safe_char (last cs)" using assms(2) by simp
  show "dropWhile (\<lambda>d. \<not> safe_char d) (cs @ ys) = dropWhile (\<lambda>d. \<not> safe_char d) cs @ ys"
    using mem nn by (rule dropWhile_append1)
  show ne: "dropWhile (\<lambda>d. \<not> safe_char d) cs \<noteq> []"
    using mem assms(2) by (auto simp: dropWhile_eq_Nil_conv)
  show "last (dropWhile (\<lambda>d. \<not> safe_char d) cs) = last cs"
  proof -
    have "last cs = last (takeWhile (\<lambda>d. \<not> safe_char d) cs @ dropWhile (\<lambda>d. \<not> safe_char d) cs)"
      by simp
    also have "\<dots> = last (dropWhile (\<lambda>d. \<not> safe_char d) cs)"
      using ne by (simp only: last_append if_False)
    finally show ?thesis by simp
  qed
qed

lemma sub_unsafe_append:
  "pre = [] \<or> safe_char (last pre) \<Longrightarrow> sub_unsafe (pre @ ys) = sub_unsafe pre @ sub_unsafe ys"
proof (induction pre rule: sub_unsafe.induct)
  case 1
  show ?case by simp
next
  case (2 c cs)
  show ?case
  proof (cases "safe_char c")
    case True
    have "cs = [] \<or> safe_char (last cs)" using 2(3) by (cases cs) auto
    with 2(1) True show ?thesis by simp
  next
    case False
    then have cs: "cs \<noteq> []" and l: "safe_char (last cs)" using 2(3) by (cases cs; auto)+
    note d = dropWhile_unsafe_append [OF cs l]
    have "sub_unsafe (dropWhile (\<lambda>d. \<not> safe_char d) cs @ ys) =
          sub_unsafe (dropWhile (\<lambda>d. \<not> safe_char d) cs) @ sub_unsafe ys"
      using 2(2) False d(2,3) l by simp
    with False d(1) show ?thesis by simp
  qed
qed

lemma length_slice_to: "0 \<le> n \<Longrightarrow> length (slice_to n xs) \<le> nat n"
  by (simp add: slice_to_def)

lemma set_slice_to: "set (slice_to n xs) \<subseteq> set xs"
  by (auto simp: slice_to_def dest: in_set_takeD)

subsection \<open>C2: what the sanitizer returns\<close>

text \<open>
  C2 says that \<^verbatim>\<open>sanitize(title, maxLen)\<close> replaces every character outside the
  permitted set with an underscore, truncates to \<open>maxLen\<close> characters, appends
  \<^verbatim>\<open>.jpg\<close>, and so always returns at most \<open>maxLen + 4\<close> characters, for every
  \<open>maxLen\<close>.

  The code differs at two places. A negative \<open>max_len\<close> is a Python slice that counts
  from the end: \<^verbatim>\<open>sanitize_filename("abcdefgh", -1)\<close> is \<^verbatim>\<open>abcdefg.jpg\<close>, eleven
  characters where the bound is three. And the pattern matches runs: the two blanks of
  \<^verbatim>\<open>a  b\<close> become one underscore, not two.
\<close>

theorem sanitize_filename_counterexample:
  "\<not> int (length (sanitize_filename ''abcdefgh'' (- 1))) \<le> - 1 + 4 \<and>
   sanitize_filename ''a  b'' 100 = ''a_b.jpg'' \<and>
   sanitize_filename ''a  b'' 100 \<noteq> ''a__b.jpg''"
proof -
  have s: "safe_char (CHR ''a'')" "safe_char (CHR ''b'')" "safe_char (CHR ''c'')" "safe_char (CHR ''d'')"
    "safe_char (CHR ''e'')" "safe_char (CHR ''f'')" "safe_char (CHR ''g'')" "safe_char (CHR ''h'')"
    "\<not> safe_char (CHR '' '')"
    by (simp_all add: safe_char_def in_range_def)
  then show ?thesis by (simp add: sanitize_filename_def slice_to_def)
qed

text \<open>
  C2, as the code has it. Let \<open>sub\<close> be the title with every maximal run of characters
  outside the permitted set replaced by one underscore: the empty title stays empty, a
  permitted character is kept, and a run that ends at a permitted character or at the end
  of the title becomes a single underscore. Then \<open>sub\<close> holds permitted characters only,
  is no longer than the title, and is the title itself when the title has permitted
  characters only. For a \<open>max_len\<close> that is not negative the result is the first
  \<open>max_len\<close> characters of \<open>sub\<close> followed by \<^verbatim>\<open>.jpg\<close>, at most \<open>max_len + 4\<close>
  characters. For a negative \<open>max_len\<close> the result is \<open>sub\<close> without its last
  \<open>- max_len\<close> characters, followed by \<^verbatim>\<open>.jpg\<close>. The function is a total function of
  its two arguments, so it is deterministic and cannot fail.
\<close>

theorem sanitize_filename_bounded_safe:
  "(0 \<le> max_len \<longrightarrow>
      sanitize_filename name max_len = take (nat max_len) (sub_unsafe name) @ ''.jpg'' \<and>
      length (sanitize_filename name max_len) \<le> nat max_len + 4) \<and>
   (max_len < 0 \<longrightarrow>
      sanitize_filename name max_len =
        take (length (sub_unsafe name) - nat (- max_len)) (sub_unsafe name) @ ''.jpg'') \<and>
   (\<forall>c \<in> set (sub_unsafe name). safe_char c) \<and>
   length (sub_unsafe name) \<le> length name \<and>
   ((\<forall>c \<in> set name. safe_char c) \<longrightarrow> sub_unsafe name = name) \<and>
   ((\<forall>c \<in> set name. safe_char c) \<and> 0 \<le> max_len \<longrightarrow>
      sanitize_filename name max_len = take (nat max_len) name @ ''.jpg'') \<and>
   sub_unsafe [] = [] \<and>
   (safe_char c \<longrightarrow> sub_unsafe (c # cs) = c # sub_unsafe cs) \<and>
   (us \<noteq> [] \<and> (\<forall>u \<in> set us. \<not> safe_char u) \<and> (rest = [] \<or> safe_char (hd rest)) \<longrightarrow>
      sub_unsafe (us @ rest) = CHR ''_'' # sub_unsafe rest)"
proof (intro conjI impI)
  assume "0 \<le> max_len"
  then show "sanitize_filename name max_len = take (nat max_len) (sub_unsafe name) @ ''.jpg''"
    by (simp add: sanitize_filename_def slice_to_def)
next
  assume "0 \<le> max_len"
  then show "length (sanitize_filename name max_len) \<le> nat max_len + 4"
    using length_slice_to [of max_len "sub_unsafe name"] by (simp add: sanitize_filename_def)
next
  assume neg: "max_len < 0"
  then have "nat (int (length (sub_unsafe name)) + max_len) =
             length (sub_unsafe name) - nat (- max_len)"
    by linarith
  with neg show "sanitize_filename name max_len =
        take (length (sub_unsafe name) - nat (- max_len)) (sub_unsafe name) @ ''.jpg''"
    by (simp add: sanitize_filename_def slice_to_def)
next
  show "\<forall>c \<in> set (sub_unsafe name). safe_char c"
    using sub_unsafe_safe by blast
next
  show "length (sub_unsafe name) \<le> length name"
    by (rule sub_unsafe_length)
next
  assume "\<forall>c \<in> set name. safe_char c"
  then show "sub_unsafe name = name" by (rule sub_unsafe_all_safe)
next
  assume a: "(\<forall>c \<in> set name. safe_char c) \<and> 0 \<le> max_len"
  then have "sub_unsafe name = name" by (intro sub_unsafe_all_safe) simp
  with a show "sanitize_filename name max_len = take (nat max_len) name @ ''.jpg''"
    by (simp add: sanitize_filename_def slice_to_def)
next
  show "sub_unsafe [] = []" by simp
next
  assume "safe_char c"
  then show "sub_unsafe (c # cs) = c # sub_unsafe cs" by simp
next
  assume "us \<noteq> [] \<and> (\<forall>u \<in> set us. \<not> safe_char u) \<and> (rest = [] \<or> safe_char (hd rest))"
  then show "sub_unsafe (us @ rest) = CHR ''_'' # sub_unsafe rest"
    by (intro sub_unsafe_run) simp_all
qed

text \<open>
  The theorem at the over-long title \<^verbatim>\<open>abcdef\<close> with limit 3, at \<^verbatim>\<open>ab  cd\<close> with
  limits 3 and 100, and at \<^verbatim>\<open>abcdefgh\<close> with limit -1.
\<close>

theorem sanitize_filename_bounded_safe_witness:
  "(0::int) \<le> 3 \<and> list_all safe_char ''abcdef'' \<and>
   sanitize_filename ''abcdef'' 3 = ''abc.jpg'' \<and>
   length (sanitize_filename ''abcdef'' 3) \<le> nat 3 + 4 \<and>
   ''  '' \<noteq> [] \<and> list_all (\<lambda>u. \<not> safe_char u) ''  '' \<and> safe_char (hd ''cd'') \<and>
   sub_unsafe (''  '' @ ''cd'') = ''_cd'' \<and>
   sanitize_filename ''ab  cd'' 3 = ''ab_.jpg'' \<and>
   sanitize_filename ''ab  cd'' 100 = ''ab_cd.jpg'' \<and>
   (- 1 :: int) < 0 \<and> sanitize_filename ''abcdefgh'' (- 1) = ''abcdefg.jpg''"
proof -
  have s: "safe_char (CHR ''a'')" "safe_char (CHR ''b'')" "safe_char (CHR ''c'')" "safe_char (CHR ''d'')"
    "safe_char (CHR ''e'')" "safe_char (CHR ''f'')" "safe_char (CHR ''g'')" "safe_char (CHR ''h'')"
    "\<not> safe_char (CHR '' '')"
    by (simp_all add: safe_char_def in_range_def)
  note t = sanitize_filename_bounded_safe
  have u: "sub_unsafe ''abcdef'' = ''abcdef''" "sub_unsafe ''ab  cd'' = ''ab_cd''"
    "sub_unsafe ''abcdefgh'' = ''abcdefgh''" "sub_unsafe ''cd'' = ''cd''"
    using s by simp_all
  have 1: "sanitize_filename ''abcdef'' 3 = ''abc.jpg''"
    using t [where name = "''abcdef''" and max_len = 3, THEN conjunct1] s by (simp add: u)
  have 2: "length (sanitize_filename ''abcdef'' 3) \<le> nat 3 + 4"
    using t [where name = "''abcdef''" and max_len = 3, THEN conjunct1] s by (simp add: u)
  have 3: "sub_unsafe (''  '' @ ''cd'') = ''_cd''"
    using t [where us = "''  ''" and rest = "''cd''", THEN conjunct2, THEN conjunct2, THEN conjunct2,
        THEN conjunct2, THEN conjunct2, THEN conjunct2, THEN conjunct2, THEN conjunct2] s by (simp add: u)
  have 4: "sanitize_filename ''ab  cd'' 3 = ''ab_.jpg''"
    using t [where name = "''ab  cd''" and max_len = 3, THEN conjunct1] s by (simp add: u)
  have 5: "sanitize_filename ''ab  cd'' 100 = ''ab_cd.jpg''"
    using t [where name = "''ab  cd''" and max_len = 100, THEN conjunct1] s by (simp add: u)
  have 6: "sanitize_filename ''abcdefgh'' (- 1) = ''abcdefg.jpg''"
    using t [where name = "''abcdefgh''" and max_len = "- 1", THEN conjunct2, THEN conjunct1] s by (simp add: u)
  from 1 2 3 4 5 6 s show ?thesis by simp
qed

section \<open>Effects of the recorder and of the fetch worker\<close>

lemma log_failure_ok:
  "append_fails E \<lparr>rec_title = t, rec_url = u, rec_reason = reason, rec_traceback = tb\<rparr> = None \<Longrightarrow>
   log_failure E t u reason tb w =
     (Returned (),
      w\<lparr>trace := trace w @ [EvRecord \<lparr>rec_title = t, rec_url = u, rec_reason = reason, rec_traceback = tb\<rparr>],
        faillog := faillog w @
          json_dumps \<lparr>rec_title = t, rec_url = u, rec_reason = reason, rec_traceback = tb\<rparr> @ [newline]\<rparr>)"
  by (simp add: log_failure_def Let_def)

lemma log_failure_raises:
  "append_fails E \<lparr>rec_title = t, rec_url = u, rec_reason = reason, rec_traceback = tb\<rparr> = Some (e, k) \<Longrightarrow>
   log_failure E t u reason tb w =
     (Raised e,
      w\<lparr>trace := trace w @ [EvRecord \<lparr>rec_title = t, rec_url = u, rec_reason = reason, rec_traceback = tb\<rparr>],
        faillog := faillog w @
          take k (json_dumps \<lparr>rec_title = t, rec_url = u, rec_reason = reason, rec_traceback = tb\<rparr> @
                  [newline])\<rparr>)"
  by (simp add: log_failure_def Let_def)

lemma log_failure_frame:
  "permits (snd (log_failure E t u reason tb w)) = permits w"
  "files (snd (log_failure E t u reason tb w)) = files w"
  "trace (snd (log_failure E t u reason tb w)) =
     trace w @ [EvRecord \<lparr>rec_title = t, rec_url = u, rec_reason = reason, rec_traceback = tb\<rparr>]"
  by (simp_all add: log_failure_def Let_def split: option.split prod.split)

lemma snd_and_return: "snd (and_return v p) = snd p"
  by (cases "(v, p)" rule: and_return.cases) simp_all

lemma fst_and_return:
  "fst (and_return v p) = (case fst p of Returned u \<Rightarrow> Returned v | Raised e \<Rightarrow> Raised e | Suspended \<Rightarrow> Suspended)"
  by (cases "(v, p)" rule: and_return.cases) simp_all

lemma download_permits: "permits (snd (download E title u score w)) = permits w"
  by (simp add: download_def Let_def snd_and_return log_failure_frame
      split: sum.split option.split prod.split)

lemma handle_errors_permits:
  "permits (snd (handle_errors E title url rw)) = permits (snd rw)"
  by (simp add: handle_errors_def snd_and_return log_failure_frame
      split: prod.split outcome.split)

lemma fetch_image_permits: "permits (snd (fetch_image E title url score w)) = permits w"
  by (simp add: fetch_image_def with_sem_def case_prod_beta snd_and_return log_failure_frame
      handle_errors_permits download_permits split: url_value.split)

lemma download_gate:
  "filter is_gate (trace (snd (download E title u score w))) = filter is_gate (trace w)"
  by (simp add: download_def Let_def snd_and_return log_failure_frame
      split: sum.split option.split prod.split)

lemma download_prefix:
  "take (length (trace w)) (trace (snd (download E title u score w))) = trace w"
  by (simp add: download_def Let_def snd_and_return log_failure_frame
      split: sum.split option.split prod.split)

lemma handle_errors_gate:
  "filter is_gate (trace (snd (handle_errors E title url rw))) = filter is_gate (trace (snd rw))"
  by (simp add: handle_errors_def snd_and_return log_failure_frame
      split: prod.split outcome.split)

lemma handle_errors_prefix:
  "take (length (trace (snd rw))) (trace (snd (handle_errors E title url rw))) = trace (snd rw)"
  by (simp add: handle_errors_def snd_and_return log_failure_frame
      split: prod.split outcome.split)

lemma take_prefix_trans:
  assumes "take (length a) b = a" and "take (length b) c = b"
  shows "take (length a) c = a"
proof -
  have "length a \<le> length b" using assms(1) by (metis length_take min.cobounded1)
  then have "take (length a) c = take (length a) (take (length b) c)" by (simp add: min_def)
  with assms show ?thesis by simp
qed

lemma body_trace:
  "\<exists>mid. trace (snd (handle_errors E title url (download E title u score w))) = trace w @ mid \<and>
         filter is_gate mid = []"
proof -
  let ?d = "download E title u score w"
  let ?h = "handle_errors E title url ?d"
  let ?mid = "drop (length (trace w)) (trace (snd ?h))"
  have p: "take (length (trace w)) (trace (snd ?h)) = trace w"
    using download_prefix handle_errors_prefix by (rule take_prefix_trans)
  have "trace (snd ?h) = take (length (trace w)) (trace (snd ?h)) @ ?mid"
    by simp
  with p have t: "trace (snd ?h) = trace w @ ?mid" by simp
  have "filter is_gate (trace (snd ?h)) = filter is_gate (trace w)"
    by (simp add: handle_errors_gate download_gate)
  then have "filter is_gate (trace w) @ filter is_gate ?mid = filter is_gate (trace w)"
    using t by (metis filter_append)
  then have "filter is_gate ?mid = []" by simp
  with t show ?thesis by blast
qed

lemma fetch_image_admitted:
  assumes "\<not> invalid_url (Str u)" and "0 < permits w"
  shows "fetch_image E title (Str u) score w =
     (let b = handle_errors E title (Str u)
                (download E title u score (w\<lparr>permits := permits w - 1, trace := trace w @ [EvAcquire]\<rparr>))
      in (fst b, (snd b)\<lparr>permits := permits (snd b) + 1, trace := trace (snd b) @ [EvRelease]\<rparr>))"
  using assms by (simp add: fetch_image_def with_sem_def case_prod_beta Let_def)

lemma fetch_image_invalid:
  assumes "invalid_url url"
  shows "fetch_image E title url score w =
     and_return None (log_failure E title url ''invalid_or_missing_url'' None w)"
  using assms by (cases url) (simp_all add: fetch_image_def)

lemma fetch_image_suspended:
  assumes "\<not> invalid_url url" and "permits w = 0"
  shows "fetch_image E title url score w = (Suspended, w)"
  using assms by (cases url) (simp_all add: fetch_image_def with_sem_def)

subsection \<open>C7: the permit is given back\<close>

text \<open>
  C7: on every exit path of a fetch invocation that acquired a permit (it returns a
  success pair, it returns \<^verbatim>\<open>None\<close> after a classified failure, or an exception leaves
  it), the permit is released, so the number of free permits after the invocation is the
  number before it. An invocation acquires a permit exactly when the URL passes the
  validation and a permit is free; its trace is then the acquisition, events that are
  neither acquisitions nor releases, and the release as the last event. An invocation that
  acquires nothing leaves no semaphore event.
\<close>

theorem fetch_image_releases_permit:
  "permits (snd (fetch_image E title url score w)) = permits w \<and>
   (\<not> invalid_url url \<and> 0 < permits w \<longrightarrow>
      (\<exists>mid. trace (snd (fetch_image E title url score w)) = trace w @ EvAcquire # mid @ [EvRelease] \<and>
             filter is_gate mid = [])) \<and>
   (invalid_url url \<or> permits w = 0 \<longrightarrow>
      filter is_gate (trace (snd (fetch_image E title url score w))) = filter is_gate (trace w))"
proof (intro conjI impI)
  show "permits (snd (fetch_image E title url score w)) = permits w"
    by (rule fetch_image_permits)
next
  assume a: "\<not> invalid_url url \<and> 0 < permits w"
  then obtain u where u: "url = Str u" by (cases url) auto
  let ?w0 = "w\<lparr>permits := permits w - 1, trace := trace w @ [EvAcquire]\<rparr>"
  obtain mid where mid:
    "trace (snd (handle_errors E title (Str u) (download E title u score ?w0))) = trace ?w0 @ mid"
    "filter is_gate mid = []"
    using body_trace [of E title "Str u" u score ?w0] by blast
  have "trace (snd (fetch_image E title url score w)) = trace w @ EvAcquire # mid @ [EvRelease]"
    using a u mid(1) by (simp add: fetch_image_admitted Let_def)
  with mid(2) show "\<exists>mid. trace (snd (fetch_image E title url score w)) =
      trace w @ EvAcquire # mid @ [EvRelease] \<and> filter is_gate mid = []"
    by blast
next
  assume a: "invalid_url url \<or> permits w = 0"
  show "filter is_gate (trace (snd (fetch_image E title url score w))) = filter is_gate (trace w)"
  proof (cases "invalid_url url")
    case True
    then show ?thesis by (simp add: fetch_image_invalid snd_and_return log_failure_frame)
  next
    case False
    with a show ?thesis by (simp add: fetch_image_suspended)
  qed
qed

text \<open>The theorem at a valid URL with 500 free permits, and at a missing URL.\<close>

lemma valid_http: "\<not> invalid_url (Str ''http://img/up.jpg'')"
  by (simp add: startswith_def)

lemma permits_world0: "permits world0 = 500"
  by (simp add: world0_def CONCURRENCY_def)

theorem fetch_image_releases_permit_witness:
  "\<not> invalid_url (Str ''http://img/up.jpg'') \<and> 0 < permits world0 \<and>
   permits (snd (fetch_image env_ok ''Up'' (Str ''http://img/up.jpg'') (8::nat) world0)) = 500 \<and>
   (\<exists>mid. trace (snd (fetch_image env_ok ''Up'' (Str ''http://img/up.jpg'') (8::nat) world0)) =
      trace world0 @ EvAcquire # mid @ [EvRelease] \<and> filter is_gate mid = []) \<and>
   invalid_url NaN \<and>
   filter is_gate (trace (snd (fetch_image env_ok ''Up'' NaN (8::nat) world0))) = []"
proof -
  note t = fetch_image_releases_permit [of env_ok "''Up''" "Str ''http://img/up.jpg''" "8::nat" world0]
  note n = fetch_image_releases_permit [of env_ok "''Up''" NaN "8::nat" world0]
  have "filter is_gate (trace world0) = []" by (simp add: world0_def)
  with t n valid_http permits_world0 show ?thesis by simp
qed

section \<open>Outcomes of the fetch worker\<close>

lemma download_get_raises:
  "http_get E u = Inl e \<Longrightarrow>
   download E title u score w = (Raised e, w\<lparr>trace := trace w @ [EvGet u]\<rparr>)"
  by (simp add: download_def Let_def)

lemma download_bad_status:
  "http_get E u = Inr status \<Longrightarrow> status \<noteq> 200 \<Longrightarrow>
   download E title u score w =
     and_return None (log_failure E title (Str u) (''http_status_'' @ str_nat status) None
       (w\<lparr>trace := trace w @ [EvGet u]\<rparr>))"
  by (simp add: download_def Let_def)

lemma download_read_raises:
  "http_get E u = Inr 200 \<Longrightarrow> http_read E u = Inl e \<Longrightarrow>
   download E title u score w = (Raised e, w\<lparr>trace := trace w @ [EvGet u, EvRead u]\<rparr>)"
  by (simp add: download_def Let_def)

lemma download_open_raises:
  "http_get E u = Inr 200 \<Longrightarrow> http_read E u = Inr B \<Longrightarrow> open_fails E (image_path title) = Some e \<Longrightarrow>
   download E title u score w =
     (Raised e, w\<lparr>trace := trace w @ [EvGet u, EvRead u, EvOpen (image_path title)]\<rparr>)"
  by (simp add: download_def Let_def)

lemma download_write_raises:
  "http_get E u = Inr 200 \<Longrightarrow> http_read E u = Inr B \<Longrightarrow> open_fails E (image_path title) = None \<Longrightarrow>
   write_fails E (image_path title) B = Some (e, k) \<Longrightarrow>
   download E title u score w =
     (Raised e,
      w\<lparr>files := (files w)(image_path title \<mapsto> take k B),
        trace := trace w @ [EvGet u, EvRead u, EvOpen (image_path title),
                            EvWrite (image_path title) (take k B)]\<rparr>)"
  by (simp add: download_def Let_def)

lemma download_success:
  "http_get E u = Inr 200 \<Longrightarrow> http_read E u = Inr B \<Longrightarrow> open_fails E (image_path title) = None \<Longrightarrow>
   write_fails E (image_path title) B = None \<Longrightarrow>
   download E title u score w =
     (Returned (Some (image_path title, score)),
      w\<lparr>files := (files w)(image_path title \<mapsto> B),
        trace := trace w @ [EvGet u, EvRead u, EvOpen (image_path title),
                            EvWrite (image_path title) B]\<rparr>)"
  by (simp add: download_def Let_def)

lemma handle_errors_returned [simp]:
  "handle_errors E title url (Returned v, w) = (Returned v, w)"
  by (simp add: handle_errors_def)

lemma handle_errors_raised:
  "handle_errors E title url (Raised e, w) =
     and_return None
       (log_failure E title url
          (if is_transport e then type_name e else ''unexpected_'' @ type_name e)
          (if is_transport e then None else Some (format_exc E e)) w)"
  by (simp add: handle_errors_def)

lemma fetch_image_success:
  assumes "\<not> invalid_url (Str u)" and "0 < permits w"
    and "http_get E u = Inr 200" and "http_read E u = Inr B"
    and "open_fails E (image_path title) = None" and "write_fails E (image_path title) B = None"
  shows "fetch_image E title (Str u) score w =
     (Returned (Some (image_path title, score)),
      w\<lparr>files := (files w)(image_path title \<mapsto> B),
        trace := trace w @ [EvAcquire, EvGet u, EvRead u, EvOpen (image_path title),
                            EvWrite (image_path title) B, EvRelease]\<rparr>)"
  using assms by (simp add: fetch_image_admitted download_success Let_def)

lemma report_eq:
  "and_return v (log_failure E t u reason tb w) =
     (case append_fails E \<lparr>rec_title = t, rec_url = u, rec_reason = reason, rec_traceback = tb\<rparr> of
        None \<Rightarrow>
          (Returned v,
           w\<lparr>trace := trace w @ [EvRecord \<lparr>rec_title = t, rec_url = u, rec_reason = reason, rec_traceback = tb\<rparr>],
             faillog := faillog w @
               json_dumps \<lparr>rec_title = t, rec_url = u, rec_reason = reason, rec_traceback = tb\<rparr> @ [newline]\<rparr>)
      | Some (e, k) \<Rightarrow>
          (Raised e,
           w\<lparr>trace := trace w @ [EvRecord \<lparr>rec_title = t, rec_url = u, rec_reason = reason, rec_traceback = tb\<rparr>],
             faillog := faillog w @
               take k (json_dumps \<lparr>rec_title = t, rec_url = u, rec_reason = reason, rec_traceback = tb\<rparr> @
                       [newline])\<rparr>))"
  by (simp add: log_failure_def Let_def split: option.split prod.split)

lemma logged_onceI:
  "faillog w' = faillog w @
     json_dumps \<lparr>rec_title = title, rec_url = url, rec_reason = reason, rec_traceback = tb\<rparr> @ [newline]
   \<Longrightarrow> logged_once title url w w'"
  unfolding logged_once_def by blast

lemma fetch_image_accounts:
  assumes "fetch_image E title url score w = (res, w')"
  shows "case res of
           Returned None \<Rightarrow> recorder_calls w w' = 1 \<or> recorder_calls w w' = 2
         | Returned (Some p) \<Rightarrow> faillog w' = faillog w \<and> recorder_calls w w' = 0
         | Raised e \<Rightarrow> 1 \<le> recorder_calls w w'
         | Suspended \<Rightarrow> w' = w"
  using assms
  by (auto simp: fetch_image_def with_sem_def handle_errors_def download_def report_eq Let_def
      recorder_calls_def new_events_def
      split: url_value.splits if_splits sum.splits option.splits prod.splits outcome.splits)

lemma fetch_image_accounts_log_ok:
  assumes "\<forall>r. append_fails E r = None" and "fetch_image E title url score w = (res, w')"
  shows "case res of
           Returned None \<Rightarrow> logged_once title url w w' \<and> recorder_calls w w' = 1
         | Returned (Some p) \<Rightarrow> faillog w' = faillog w \<and> recorder_calls w w' = 0
         | Raised e \<Rightarrow> False
         | Suspended \<Rightarrow> w' = w"
  using assms
  by (auto simp: fetch_image_def with_sem_def handle_errors_def download_def report_eq Let_def
      recorder_calls_def new_events_def intro!: logged_onceI
      split: url_value.splits if_splits sum.splits option.splits prod.splits outcome.splits)

lemma logged_once_line:
  "logged_once title url w w' \<Longrightarrow> \<exists>l. failure_line title url l \<and> faillog w' = faillog w @ l"
  unfolding logged_once_def failure_line_def by blast

lemma map_the_filter_concat:
  "map the (filter (\<lambda>v. v \<noteq> None) vs) = concat (map (\<lambda>v. case v of None \<Rightarrow> [] | Some p \<Rightarrow> [p]) vs)"
  by (induction vs) auto

lemma gather_Cons_Returned:
  assumes "gather Es i (r # rows) w = (Returned vs, w')"
  obtains v w1 vs' where
    "fetch_image (Es i) (row_title r) (poster r) (imdb_score r) w = (Returned v, w1)"
    "gather Es (Suc i) rows w1 = (Returned vs', w')" "vs = v # vs'"
  using assms by (auto split: prod.splits outcome.splits)

lemma gather_length:
  "gather Es i rows w = (Returned vs, w') \<Longrightarrow> length vs = length rows"
proof (induction rows arbitrary: i w vs)
  case Nil
  then show ?case by simp
next
  case (Cons r rows)
  from Cons.prems obtain v w1 vs' where
    g: "gather Es (Suc i) rows w1 = (Returned vs', w')" and vs: "vs = v # vs'"
    by (rule gather_Cons_Returned)
  from Cons.IH [OF g] vs show ?case by simp
qed

lemma gather_accounts:
  assumes ok: "\<forall>i r. append_fails (Es i) r = None"
  shows "gather Es i rows w = (Returned vs, w') \<Longrightarrow>
   length vs = length rows \<and>
   (\<exists>ls. length ls = length rows \<and> faillog w' = faillog w @ concat ls \<and>
      (\<forall>k < length rows.
         (\<exists>p. vs ! k = Some p \<and> ls ! k = []) \<or>
         (vs ! k = None \<and> failure_line (row_title (rows ! k)) (poster (rows ! k)) (ls ! k))))"
proof (induction rows arbitrary: i w vs)
  case Nil
  then show ?case by simp
next
  case (Cons r rows)
  from Cons.prems obtain v w1 vs' where
    f: "fetch_image (Es i) (row_title r) (poster r) (imdb_score r) w = (Returned v, w1)" and
    g: "gather Es (Suc i) rows w1 = (Returned vs', w')" and vs: "vs = v # vs'"
    by (rule gather_Cons_Returned)
  from ok have oki: "\<forall>q. append_fails (Es i) q = None" by simp
  from Cons.IH [OF g] obtain ls where
    len: "length vs' = length rows" and ls: "length ls = length rows"
    and log: "faillog w' = faillog w1 @ concat ls"
    and each: "\<forall>k < length rows.
         (\<exists>p. vs' ! k = Some p \<and> ls ! k = []) \<or>
         (vs' ! k = None \<and> failure_line (row_title (rows ! k)) (poster (rows ! k)) (ls ! k))"
    by blast
  have "\<exists>l. faillog w1 = faillog w @ l \<and>
          ((\<exists>p. v = Some p \<and> l = []) \<or> (v = None \<and> failure_line (row_title r) (poster r) l))"
  proof (cases v)
    case None
    with fetch_image_accounts_log_ok [OF oki f] have "logged_once (row_title r) (poster r) w w1"
      by simp
    from logged_once_line [OF this] None show ?thesis by blast
  next
    case (Some p)
    with fetch_image_accounts_log_ok [OF oki f] have "faillog w1 = faillog w" by simp
    with Some show ?thesis by simp
  qed
  then obtain l where l: "faillog w1 = faillog w @ l"
    and lv: "(\<exists>p. v = Some p \<and> l = []) \<or> (v = None \<and> failure_line (row_title r) (poster r) l)"
    by blast
  have "\<forall>k < length (r # rows).
         (\<exists>p. vs ! k = Some p \<and> (l # ls) ! k = []) \<or>
         (vs ! k = None \<and> failure_line (row_title ((r # rows) ! k)) (poster ((r # rows) ! k)) ((l # ls) ! k))"
  proof (intro allI impI)
    fix k assume k: "k < length (r # rows)"
    show "(\<exists>p. vs ! k = Some p \<and> (l # ls) ! k = []) \<or>
         (vs ! k = None \<and> failure_line (row_title ((r # rows) ! k)) (poster ((r # rows) ! k)) ((l # ls) ! k))"
    proof (cases k)
      case 0
      with lv vs show ?thesis by simp
    next
      case (Suc j)
      with k each vs show ?thesis by simp
    qed
  qed
  moreover have "faillog w' = faillog w @ concat (l # ls)" using l log by simp
  moreover have "length (l # ls) = length (r # rows)" using ls by simp
  moreover have "length vs = length (r # rows)" using len vs by simp
  ultimately show ?case by blast
qed

lemma scrape_all_Returned:
  assumes "scrape_all Es df w = (Returned results, w')"
  obtains vs where "gather Es 0 df (w\<lparr>permits := CONCURRENCY\<rparr>) = (Returned vs, w')"
    "results = map the (filter (\<lambda>v. v \<noteq> None) vs)"
  using assms by (auto simp: scrape_all_def split: prod.splits outcome.splits)

lemma scrape_all_accounts:
  assumes ok: "\<forall>i r. append_fails (Es i) r = None"
    and "scrape_all Es df w = (Returned results, w')"
  shows "\<exists>cs ls. length cs = length df \<and> length ls = length df \<and> results = concat cs \<and>
           faillog w' = faillog w @ concat ls \<and>
           (\<forall>k < length df.
              (\<exists>p. cs ! k = [p] \<and> ls ! k = []) \<or>
              (cs ! k = [] \<and> failure_line (row_title (df ! k)) (poster (df ! k)) (ls ! k)))"
proof -
  from assms(2) obtain vs where
    g: "gather Es 0 df (w\<lparr>permits := CONCURRENCY\<rparr>) = (Returned vs, w')" and
    r: "results = map the (filter (\<lambda>v. v \<noteq> None) vs)"
    by (rule scrape_all_Returned)
  from gather_accounts [OF ok g] obtain ls where
    len: "length vs = length df" and ls: "length ls = length df"
    and log: "faillog w' = faillog w @ concat ls"
    and each: "\<forall>k < length df.
         (\<exists>p. vs ! k = Some p \<and> ls ! k = []) \<or>
         (vs ! k = None \<and> failure_line (row_title (df ! k)) (poster (df ! k)) (ls ! k))"
    by auto
  let ?cs = "map (\<lambda>v. case v of None \<Rightarrow> [] | Some p \<Rightarrow> [p]) vs"
  have "results = concat ?cs" unfolding r by (rule map_the_filter_concat)
  moreover have "length ?cs = length df" using len by simp
  moreover have "\<forall>k < length df.
              (\<exists>p. ?cs ! k = [p] \<and> ls ! k = []) \<or>
              (?cs ! k = [] \<and> failure_line (row_title (df ! k)) (poster (df ! k)) (ls ! k))"
    using each len by auto
  ultimately show ?thesis using ls log by blast
qed

lemmas fetch_defs =
  fetch_image_def with_sem_def handle_errors_def download_def report_eq Let_def

subsection \<open>C3: rows without a usable URL\<close>

text \<open>
  C3, as the code has it. For every row whose URL is missing (NaN) or is a string that does
  not begin with the four characters \<^verbatim>\<open>http\<close> (the empty string included), the fetch
  worker calls the failure recorder exactly once, with the reason
  \<^verbatim>\<open>invalid_or_missing_url\<close>, and that call is its only effect: no request, no image
  file, no permit. When the record is written the worker returns \<^verbatim>\<open>None\<close> and the log
  has grown by the line of this record. When the write raises, the exception leaves the
  worker, and the log has grown by the part of the line that reached the file before the
  exception.
\<close>

theorem fetch_image_invalid_url_reported:
  "invalid_url url \<longrightarrow>
     new_events w (snd (fetch_image E title url score w)) =
       [EvRecord \<lparr>rec_title = title, rec_url = url, rec_reason = ''invalid_or_missing_url'',
                  rec_traceback = None\<rparr>] \<and>
     permits (snd (fetch_image E title url score w)) = permits w \<and>
     files (snd (fetch_image E title url score w)) = files w \<and>
     (case append_fails E \<lparr>rec_title = title, rec_url = url, rec_reason = ''invalid_or_missing_url'',
                            rec_traceback = None\<rparr> of
        None \<Rightarrow>
          fst (fetch_image E title url score w) = Returned None \<and>
          faillog (snd (fetch_image E title url score w)) =
            faillog w @ json_dumps \<lparr>rec_title = title, rec_url = url,
              rec_reason = ''invalid_or_missing_url'', rec_traceback = None\<rparr> @ [newline]
      | Some (e, k) \<Rightarrow>
          fst (fetch_image E title url score w) = Raised e \<and>
          faillog (snd (fetch_image E title url score w)) =
            faillog w @ take k (json_dumps \<lparr>rec_title = title, rec_url = url,
              rec_reason = ''invalid_or_missing_url'', rec_traceback = None\<rparr> @ [newline]))"
  by (auto simp: fetch_defs new_events_def split: url_value.splits option.splits prod.splits)

subsection \<open>C4: a response whose status is not 200\<close>

lemma digit_nth:
  "\<forall>k \<in> set [0..<10].
     in_range (CHR ''0'') (CHR ''9'') (''0123456789'' ! k) \<and>
     (of_char (''0123456789'' ! k) :: nat) - 48 = k \<and>
     (''0123456789'' ! k = CHR ''0'' \<longrightarrow> k = 0)"
  by code_simp

lemma digit_nth_lt:
  assumes "k < 10"
  shows "in_range (CHR ''0'') (CHR ''9'') (''0123456789'' ! k)"
    and "(of_char (''0123456789'' ! k) :: nat) - 48 = k"
    and "''0123456789'' ! k = CHR ''0'' \<longrightarrow> k = 0"
  using digit_nth assms by simp_all

lemma str_nat_nonempty: "str_nat n \<noteq> []"
  by (subst str_nat.simps) simp

lemma str_nat_digits: "c \<in> set (str_nat n) \<Longrightarrow> in_range (CHR ''0'') (CHR ''9'') c"
proof (induction n arbitrary: c rule: str_nat.induct)
  case (1 n)
  show ?case
  proof (cases "n < 10")
    case True
    with "1.prems" have "c = ''0123456789'' ! n" by (subst (asm) str_nat.simps) simp
    with digit_nth_lt(1) [OF True] show ?thesis by simp
  next
    case False
    with "1.prems" have "c \<in> set (str_nat (n div 10)) \<or> c = ''0123456789'' ! (n mod 10)"
      by (subst (asm) str_nat.simps) auto
    then show ?thesis
    proof
      assume "c \<in> set (str_nat (n div 10))"
      with "1.IH" False show ?thesis by simp
    next
      assume c: "c = ''0123456789'' ! (n mod 10)"
      have "n mod 10 < 10" by simp
      from digit_nth_lt(1) [OF this] c show ?thesis by simp
    qed
  qed
qed

lemma decimal_value_snoc:
  "decimal_value (s @ [c]) = 10 * decimal_value s + (of_char c - 48)"
  by (simp add: decimal_value_def)

lemma decimal_value_str_nat: "decimal_value (str_nat n) = n"
proof (induction n rule: str_nat.induct)
  case (1 n)
  show ?case
  proof (cases "n < 10")
    case True
    have "str_nat n = [''0123456789'' ! n]" using True by (subst str_nat.simps) simp
    then have "decimal_value (str_nat n) = of_char (''0123456789'' ! n) - 48"
      using decimal_value_snoc [of "[]"] by (simp add: decimal_value_def)
    with digit_nth_lt(2) [OF True] show ?thesis by simp
  next
    case False
    have m: "n mod 10 < 10" by simp
    have "str_nat n = str_nat (n div 10) @ [''0123456789'' ! (n mod 10)]"
      using False by (subst str_nat.simps) simp
    then have "decimal_value (str_nat n) =
        10 * decimal_value (str_nat (n div 10)) + (of_char (''0123456789'' ! (n mod 10)) - 48)"
      by (simp only: decimal_value_snoc)
    also have "\<dots> = 10 * (n div 10) + n mod 10"
      using "1.IH" False digit_nth_lt(2) [OF m] by simp
    finally show ?thesis by simp
  qed
qed

lemma str_nat_leading_zero: "hd (str_nat n) = CHR ''0'' \<Longrightarrow> n = 0"
proof (induction n rule: str_nat.induct)
  case (1 n)
  show ?case
  proof (cases "n < 10")
    case True
    have "str_nat n = [''0123456789'' ! n]" using True by (subst str_nat.simps) simp
    with "1.prems" have "''0123456789'' ! n = CHR ''0''" by simp
    with digit_nth_lt(3) [OF True] show ?thesis by simp
  next
    case False
    have "str_nat n = str_nat (n div 10) @ [''0123456789'' ! (n mod 10)]"
      using False by (subst str_nat.simps) simp
    with "1.prems" have "hd (str_nat (n div 10)) = CHR ''0''"
      by (simp add: hd_append str_nat_nonempty)
    with "1.IH" False have "n div 10 = 0" by simp
    with False show ?thesis by simp
  qed
qed

lemma str_nat_zero: "str_nat 0 = ''0''"
  by (subst str_nat.simps) simp

text \<open>
  C4, as the code has it. For every row with a valid URL that was admitted and whose
  response status is not 200, the worker writes no file, returns no success pair, and
  reports the reason \<^verbatim>\<open>http_status_<code>\<close> to the failure recorder, where the code is
  the status in decimal digits: digits only, denoting the status, with no leading zero.
  When that record is written, it is the only record of the row, the log has grown by its
  line, the trace is acquire, request, report, release, and the worker returns \<^verbatim>\<open>None\<close>.
  When writing that record raises, the report is inside the \<^verbatim>\<open>try\<close>: the exception is
  caught and reported by a second call of the recorder, under the name of the exception
  or \<^verbatim>\<open>unexpected_\<close> and its name. The log then holds what reached the file of the first
  line, followed by the second line when that one is written (the worker returns
  \<^verbatim>\<open>None\<close>), or by what reached the file of the second line when writing it raises too
  (the second exception leaves the worker).
\<close>

theorem fetch_image_bad_status:
  "(\<not> invalid_url (Str u) \<and> 0 < permits w \<and> http_get E u = Inr status \<and> status \<noteq> 200 \<longrightarrow>
     files (snd (fetch_image E title (Str u) score w)) = files w \<and>
     (\<forall>p. fst (fetch_image E title (Str u) score w) \<noteq> Returned (Some p)) \<and>
     (case append_fails E \<lparr>rec_title = title, rec_url = Str u,
             rec_reason = ''http_status_'' @ str_nat status, rec_traceback = None\<rparr> of
        None \<Rightarrow>
          fst (fetch_image E title (Str u) score w) = Returned None \<and>
          new_events w (snd (fetch_image E title (Str u) score w)) =
            [EvAcquire, EvGet u,
             EvRecord \<lparr>rec_title = title, rec_url = Str u,
               rec_reason = ''http_status_'' @ str_nat status, rec_traceback = None\<rparr>,
             EvRelease] \<and>
          faillog (snd (fetch_image E title (Str u) score w)) =
            faillog w @ json_dumps \<lparr>rec_title = title, rec_url = Str u,
              rec_reason = ''http_status_'' @ str_nat status, rec_traceback = None\<rparr> @ [newline]
      | Some (e, k) \<Rightarrow>
          new_events w (snd (fetch_image E title (Str u) score w)) =
            [EvAcquire, EvGet u,
             EvRecord \<lparr>rec_title = title, rec_url = Str u,
               rec_reason = ''http_status_'' @ str_nat status, rec_traceback = None\<rparr>,
             EvRecord \<lparr>rec_title = title, rec_url = Str u,
               rec_reason = (if is_transport e then type_name e else ''unexpected_'' @ type_name e),
               rec_traceback = (if is_transport e then None else Some (format_exc E e))\<rparr>,
             EvRelease] \<and>
          (case append_fails E \<lparr>rec_title = title, rec_url = Str u,
               rec_reason = (if is_transport e then type_name e else ''unexpected_'' @ type_name e),
               rec_traceback = (if is_transport e then None else Some (format_exc E e))\<rparr> of
             None \<Rightarrow>
               fst (fetch_image E title (Str u) score w) = Returned None \<and>
               faillog (snd (fetch_image E title (Str u) score w)) =
                 faillog w @
                 take k (json_dumps \<lparr>rec_title = title, rec_url = Str u,
                   rec_reason = ''http_status_'' @ str_nat status, rec_traceback = None\<rparr> @ [newline]) @
                 json_dumps \<lparr>rec_title = title, rec_url = Str u,
                   rec_reason = (if is_transport e then type_name e else ''unexpected_'' @ type_name e),
                   rec_traceback = (if is_transport e then None else Some (format_exc E e))\<rparr> @
                 [newline]
           | Some (e2, k2) \<Rightarrow>
               fst (fetch_image E title (Str u) score w) = Raised e2 \<and>
               faillog (snd (fetch_image E title (Str u) score w)) =
                 faillog w @
                 take k (json_dumps \<lparr>rec_title = title, rec_url = Str u,
                   rec_reason = ''http_status_'' @ str_nat status, rec_traceback = None\<rparr> @ [newline]) @
                 take k2 (json_dumps \<lparr>rec_title = title, rec_url = Str u,
                   rec_reason = (if is_transport e then type_name e else ''unexpected_'' @ type_name e),
                   rec_traceback = (if is_transport e then None else Some (format_exc E e))\<rparr> @
                   [newline])))) \<and>
   str_nat status \<noteq> [] \<and>
   (\<forall>c \<in> set (str_nat status). in_range (CHR ''0'') (CHR ''9'') c) \<and>
   decimal_value (str_nat status) = status \<and>
   (hd (str_nat status) = CHR ''0'' \<longrightarrow> str_nat status = ''0'')"
proof (intro conjI ballI)
  show "\<not> invalid_url (Str u) \<and> 0 < permits w \<and> http_get E u = Inr status \<and> status \<noteq> 200 \<longrightarrow>
     files (snd (fetch_image E title (Str u) score w)) = files w \<and>
     (\<forall>p. fst (fetch_image E title (Str u) score w) \<noteq> Returned (Some p)) \<and>
     (case append_fails E \<lparr>rec_title = title, rec_url = Str u,
             rec_reason = ''http_status_'' @ str_nat status, rec_traceback = None\<rparr> of
        None \<Rightarrow>
          fst (fetch_image E title (Str u) score w) = Returned None \<and>
          new_events w (snd (fetch_image E title (Str u) score w)) =
            [EvAcquire, EvGet u,
             EvRecord \<lparr>rec_title = title, rec_url = Str u,
               rec_reason = ''http_status_'' @ str_nat status, rec_traceback = None\<rparr>,
             EvRelease] \<and>
          faillog (snd (fetch_image E title (Str u) score w)) =
            faillog w @ json_dumps \<lparr>rec_title = title, rec_url = Str u,
              rec_reason = ''http_status_'' @ str_nat status, rec_traceback = None\<rparr> @ [newline]
      | Some (e, k) \<Rightarrow>
          new_events w (snd (fetch_image E title (Str u) score w)) =
            [EvAcquire, EvGet u,
             EvRecord \<lparr>rec_title = title, rec_url = Str u,
               rec_reason = ''http_status_'' @ str_nat status, rec_traceback = None\<rparr>,
             EvRecord \<lparr>rec_title = title, rec_url = Str u,
               rec_reason = (if is_transport e then type_name e else ''unexpected_'' @ type_name e),
               rec_traceback = (if is_transport e then None else Some (format_exc E e))\<rparr>,
             EvRelease] \<and>
          (case append_fails E \<lparr>rec_title = title, rec_url = Str u,
               rec_reason = (if is_transport e then type_name e else ''unexpected_'' @ type_name e),
               rec_traceback = (if is_transport e then None else Some (format_exc E e))\<rparr> of
             None \<Rightarrow>
               fst (fetch_image E title (Str u) score w) = Returned None \<and>
               faillog (snd (fetch_image E title (Str u) score w)) =
                 faillog w @
                 take k (json_dumps \<lparr>rec_title = title, rec_url = Str u,
                   rec_reason = ''http_status_'' @ str_nat status, rec_traceback = None\<rparr> @ [newline]) @
                 json_dumps \<lparr>rec_title = title, rec_url = Str u,
                   rec_reason = (if is_transport e then type_name e else ''unexpected_'' @ type_name e),
                   rec_traceback = (if is_transport e then None else Some (format_exc E e))\<rparr> @
                 [newline]
           | Some (e2, k2) \<Rightarrow>
               fst (fetch_image E title (Str u) score w) = Raised e2 \<and>
               faillog (snd (fetch_image E title (Str u) score w)) =
                 faillog w @
                 take k (json_dumps \<lparr>rec_title = title, rec_url = Str u,
                   rec_reason = ''http_status_'' @ str_nat status, rec_traceback = None\<rparr> @ [newline]) @
                 take k2 (json_dumps \<lparr>rec_title = title, rec_url = Str u,
                   rec_reason = (if is_transport e then type_name e else ''unexpected_'' @ type_name e),
                   rec_traceback = (if is_transport e then None else Some (format_exc E e))\<rparr> @
                   [newline])))"
    by (auto simp: fetch_defs new_events_def split: option.splits prod.splits)
  show "str_nat status \<noteq> []" by (rule str_nat_nonempty)
  show "\<And>c. c \<in> set (str_nat status) \<Longrightarrow> in_range (CHR ''0'') (CHR ''9'') c"
    by (rule str_nat_digits)
  show "decimal_value (str_nat status) = status" by (rule decimal_value_str_nat)
  show "hd (str_nat status) = CHR ''0'' \<longrightarrow> str_nat status = ''0''"
    using str_nat_leading_zero [of status] str_nat_zero by auto
qed

lemma gather_nth:
  "gather Es i rows w = (Returned vs, w') \<Longrightarrow> k < length rows \<Longrightarrow>
   \<exists>wk wk'. permits wk = permits w \<and>
     fetch_image (Es (i + k)) (row_title (rows ! k)) (poster (rows ! k)) (imdb_score (rows ! k)) wk =
       (Returned (vs ! k), wk')"
proof (induction rows arbitrary: i w vs k)
  case Nil
  then show ?case by simp
next
  case (Cons r rows)
  from Cons.prems(1) obtain v w1 vs' where
    f: "fetch_image (Es i) (row_title r) (poster r) (imdb_score r) w = (Returned v, w1)" and
    g: "gather Es (Suc i) rows w1 = (Returned vs', w')" and vs: "vs = v # vs'"
    by (rule gather_Cons_Returned)
  show ?case
  proof (cases k)
    case 0
    with f vs show ?thesis by auto
  next
    case (Suc j)
    with Cons.prems(2) have j: "j < length rows" by simp
    have p: "permits w1 = permits w"
      using fetch_image_permits [of "Es i" "row_title r" "poster r" "imdb_score r" w] f by simp
    from Cons.IH [OF g j] p Suc vs show ?thesis by auto
  qed
qed

subsection \<open>C5: a response with status 200\<close>

lemma fetch_image_success_run:
  "(\<not> invalid_url (Str u) \<and> 0 < permits w \<and> http_get E u = Inr 200 \<and> http_read E u = Inr B \<and>
    open_fails E (image_path title) = None \<and> write_fails E (image_path title) B = None \<longrightarrow>
      fst (fetch_image E title (Str u) score w) = Returned (Some (image_path title, score)) \<and>
      files (snd (fetch_image E title (Str u) score w)) = (files w)(image_path title \<mapsto> B) \<and>
      faillog (snd (fetch_image E title (Str u) score w)) = faillog w \<and>
      new_events w (snd (fetch_image E title (Str u) score w)) =
        [EvAcquire, EvGet u, EvRead u, EvOpen (image_path title), EvWrite (image_path title) B,
         EvRelease]) \<and>
   (scrape_all Es df w0 = (Returned results, w1) \<and> k < length df \<and> poster (df ! k) = Str u \<and>
    \<not> invalid_url (Str u) \<and> http_get (Es k) u = Inr 200 \<and> http_read (Es k) u = Inr B \<and>
    open_fails (Es k) (image_path (row_title (df ! k))) = None \<and>
    write_fails (Es k) (image_path (row_title (df ! k))) B = None \<longrightarrow>
      (\<exists>cs. length cs = length df \<and> results = concat cs \<and>
            cs ! k = [(image_path (row_title (df ! k)), imdb_score (df ! k))]))"
proof (intro conjI impI)
  assume a: "\<not> invalid_url (Str u) \<and> 0 < permits w \<and> http_get E u = Inr 200 \<and> http_read E u = Inr B \<and>
    open_fails E (image_path title) = None \<and> write_fails E (image_path title) B = None"
  then have eq: "fetch_image E title (Str u) score w =
     (Returned (Some (image_path title, score)),
      w\<lparr>files := (files w)(image_path title \<mapsto> B),
        trace := trace w @ [EvAcquire, EvGet u, EvRead u, EvOpen (image_path title),
                            EvWrite (image_path title) B, EvRelease]\<rparr>)"
    by (intro fetch_image_success) simp_all
  show "fst (fetch_image E title (Str u) score w) = Returned (Some (image_path title, score))"
    by (simp add: eq)
  show "files (snd (fetch_image E title (Str u) score w)) = (files w)(image_path title \<mapsto> B)"
    by (simp add: eq)
  show "faillog (snd (fetch_image E title (Str u) score w)) = faillog w"
    by (simp add: eq)
  show "new_events w (snd (fetch_image E title (Str u) score w)) =
        [EvAcquire, EvGet u, EvRead u, EvOpen (image_path title), EvWrite (image_path title) B,
         EvRelease]"
    by (simp add: eq new_events_def)
next
  assume a: "scrape_all Es df w0 = (Returned results, w1) \<and> k < length df \<and> poster (df ! k) = Str u \<and>
    \<not> invalid_url (Str u) \<and> http_get (Es k) u = Inr 200 \<and> http_read (Es k) u = Inr B \<and>
    open_fails (Es k) (image_path (row_title (df ! k))) = None \<and>
    write_fails (Es k) (image_path (row_title (df ! k))) B = None"
  then obtain vs where
    g: "gather Es 0 df (w0\<lparr>permits := CONCURRENCY\<rparr>) = (Returned vs, w1)" and
    r: "results = map the (filter (\<lambda>v. v \<noteq> None) vs)"
    by (auto elim: scrape_all_Returned)
  from a have k: "k < length df" by simp
  from gather_nth [OF g k] obtain wk wk' where
    p: "permits wk = CONCURRENCY" and
    f: "fetch_image (Es k) (row_title (df ! k)) (Str u) (imdb_score (df ! k)) wk = (Returned (vs ! k), wk')"
    using a by auto
  have "0 < permits wk" using p by (simp add: CONCURRENCY_def)
  with a have "fetch_image (Es k) (row_title (df ! k)) (Str u) (imdb_score (df ! k)) wk =
     (Returned (Some (image_path (row_title (df ! k)), imdb_score (df ! k))),
      wk\<lparr>files := (files wk)(image_path (row_title (df ! k)) \<mapsto> B),
        trace := trace wk @ [EvAcquire, EvGet u, EvRead u, EvOpen (image_path (row_title (df ! k))),
                            EvWrite (image_path (row_title (df ! k))) B, EvRelease]\<rparr>)"
    by (intro fetch_image_success) simp_all
  with f have v: "vs ! k = Some (image_path (row_title (df ! k)), imdb_score (df ! k))" by simp
  have len: "length vs = length df" using gather_length [OF g] by simp
  let ?cs = "map (\<lambda>v. case v of None \<Rightarrow> [] | Some p \<Rightarrow> [p]) vs"
  have "results = concat ?cs" unfolding r by (rule map_the_filter_concat)
  moreover have "length ?cs = length df" using len by simp
  moreover have "?cs ! k = [(image_path (row_title (df ! k)), imdb_score (df ! k))]"
    using v k len by simp
  ultimately show "\<exists>cs. length cs = length df \<and> results = concat cs \<and>
            cs ! k = [(image_path (row_title (df ! k)), imdb_score (df ! k))]"
    by blast
qed

text \<open>
  C5: for every row with a valid URL that was admitted, whose response has status 200 and
  body \<open>B\<close>, and whose file can be opened and written, the worker writes \<open>B\<close> at the
  sanitized target path, which is \<^verbatim>\<open>poster_images/\<close> followed by
  \<^verbatim>\<open>sanitize_filename(title)\<close> with the default bound of 100 characters; it changes no
  other file, returns the pair of that path and the score, and never calls the failure
  recorder: its trace is acquire, request, read, open, write, release and the log is as it
  was. In a run that completes, the row's pair is the row's one entry in the list that
  \<^verbatim>\<open>scrape_all\<close> returns.
\<close>

theorem fetch_image_success_writes_body:
  "(\<not> invalid_url (Str u) \<and> 0 < permits w \<and> http_get E u = Inr 200 \<and> http_read E u = Inr B \<and>
    open_fails E (''poster_images/'' @ sanitize_filename title 100) = None \<and>
    write_fails E (''poster_images/'' @ sanitize_filename title 100) B = None \<longrightarrow>
      fst (fetch_image E title (Str u) score w) =
        Returned (Some (''poster_images/'' @ sanitize_filename title 100, score)) \<and>
      files (snd (fetch_image E title (Str u) score w)) =
        (files w)((''poster_images/'' @ sanitize_filename title 100) \<mapsto> B) \<and>
      faillog (snd (fetch_image E title (Str u) score w)) = faillog w \<and>
      new_events w (snd (fetch_image E title (Str u) score w)) =
        [EvAcquire, EvGet u, EvRead u,
         EvOpen (''poster_images/'' @ sanitize_filename title 100),
         EvWrite (''poster_images/'' @ sanitize_filename title 100) B,
         EvRelease]) \<and>
   (scrape_all Es df w0 = (Returned results, w1) \<and> k < length df \<and> poster (df ! k) = Str u \<and>
    \<not> invalid_url (Str u) \<and> http_get (Es k) u = Inr 200 \<and> http_read (Es k) u = Inr B \<and>
    open_fails (Es k) (''poster_images/'' @ sanitize_filename (row_title (df ! k)) 100) = None \<and>
    write_fails (Es k) (''poster_images/'' @ sanitize_filename (row_title (df ! k)) 100) B = None \<longrightarrow>
      (\<exists>cs. length cs = length df \<and> results = concat cs \<and>
            cs ! k = [(''poster_images/'' @ sanitize_filename (row_title (df ! k)) 100,
                       imdb_score (df ! k))]))"
  by (rule fetch_image_success_run [unfolded image_path_def])

lemma fetch_image_reads_before_open:
  assumes "\<not> invalid_url (Str u)" and "0 < permits w"
    and "http_get E u = Inr 200" and "http_read E u = Inr B"
  shows "take 4 (new_events w (snd (fetch_image E title (Str u) score w))) =
           [EvAcquire, EvGet u, EvRead u, EvOpen (image_path title)]"
proof -
  let ?w0 = "w\<lparr>permits := permits w - 1, trace := trace w @ [EvAcquire]\<rparr>"
  have "\<exists>rest. trace (snd (download E title u score ?w0)) =
           trace w @ [EvAcquire, EvGet u, EvRead u, EvOpen (image_path title)] @ rest"
    using assms(3,4) by (simp add: download_def Let_def split: option.split prod.split)
  then obtain rest where d: "trace (snd (download E title u score ?w0)) =
           trace w @ [EvAcquire, EvGet u, EvRead u, EvOpen (image_path title)] @ rest"
    by blast
  let ?d = "download E title u score ?w0"
  have "take (length (trace (snd ?d))) (trace (snd (handle_errors E title (Str u) ?d))) = trace (snd ?d)"
    by (rule handle_errors_prefix)
  then obtain more where h: "trace (snd (handle_errors E title (Str u) ?d)) = trace (snd ?d) @ more"
    by (metis append_take_drop_id)
  have "trace (snd (fetch_image E title (Str u) score w)) =
          trace w @ [EvAcquire, EvGet u, EvRead u, EvOpen (image_path title)] @ rest @ more @ [EvRelease]"
    using assms(1,2) d h by (simp add: fetch_image_admitted Let_def)
  then show ?thesis by (simp add: new_events_def)
qed

lemma no_open_invalid:
  assumes "invalid_url url"
  shows "files (snd (fetch_image E title url score w)) = files w \<and>
         (\<forall>p c. EvOpen p \<notin> set (new_events w (snd (fetch_image E title url score w))) \<and>
                EvWrite p c \<notin> set (new_events w (snd (fetch_image E title url score w))))"
  using assms
    by (simp add: fetch_image_invalid report_eq new_events_def split: option.split)

lemma no_open_get_raises:
  assumes vu: "\<not> invalid_url (Str u)" and pos: "0 < permits w" and Inl: "http_get E u = Inl e"
  shows "files (snd (fetch_image E title (Str u) score w)) = files w \<and>
         (\<forall>p c. EvOpen p \<notin> set (new_events w (snd (fetch_image E title (Str u) score w))) \<and>
                EvWrite p c \<notin> set (new_events w (snd (fetch_image E title (Str u) score w))))"
  unfolding fetch_image_admitted [OF vu pos]
        by (simp add: download_get_raises [OF Inl] handle_errors_raised report_eq Let_def
            new_events_def split: option.split)

lemma handle_errors_case_option:
  "handle_errors E title url (case x of None \<Rightarrow> a | Some e \<Rightarrow> b e) =
     (case x of None \<Rightarrow> handle_errors E title url a | Some e \<Rightarrow> handle_errors E title url (b e))"
  by (cases x) simp_all

lemma no_open_bad_status:
  assumes vu: "\<not> invalid_url (Str u)" and pos: "0 < permits w" and Inr: "http_get E u = Inr status"
    and ne: "status \<noteq> 200"
  shows "files (snd (fetch_image E title (Str u) score w)) = files w \<and>
         (\<forall>p c. EvOpen p \<notin> set (new_events w (snd (fetch_image E title (Str u) score w))) \<and>
                EvWrite p c \<notin> set (new_events w (snd (fetch_image E title (Str u) score w))))"
  unfolding fetch_image_admitted [OF vu pos]
  by (simp add: download_bad_status [OF Inr ne] report_eq handle_errors_case_option
      handle_errors_raised Let_def new_events_def split: option.split)

lemma no_open_read_raises:
  assumes vu: "\<not> invalid_url (Str u)" and pos: "0 < permits w" and g: "http_get E u = Inr 200"
    and Inl: "http_read E u = Inl e"
  shows "files (snd (fetch_image E title (Str u) score w)) = files w \<and>
         (\<forall>p c. EvOpen p \<notin> set (new_events w (snd (fetch_image E title (Str u) score w))) \<and>
                EvWrite p c \<notin> set (new_events w (snd (fetch_image E title (Str u) score w))))"
  unfolding fetch_image_admitted [OF vu pos]
            by (simp add: download_read_raises [OF g Inl] handle_errors_raised report_eq Let_def
                new_events_def split: option.split)

lemma no_open_suspended:
  assumes "\<not> invalid_url url" and "permits w = 0"
  shows "files (snd (fetch_image E title url score w)) = files w \<and>
         (\<forall>p c. EvOpen p \<notin> set (new_events w (snd (fetch_image E title url score w))) \<and>
                EvWrite p c \<notin> set (new_events w (snd (fetch_image E title url score w))))"
  unfolding fetch_image_suspended [OF assms] by (simp add: new_events_def)

lemma no_open_valid:
  assumes vu: "\<not> invalid_url (Str u)" and pos: "0 < permits w"
    and nr: "http_get E u = Inr 200 \<longrightarrow> (\<forall>B. http_read E u \<noteq> Inr B)"
  shows "files (snd (fetch_image E title (Str u) score w)) = files w \<and>
         (\<forall>p c. EvOpen p \<notin> set (new_events w (snd (fetch_image E title (Str u) score w))) \<and>
                EvWrite p c \<notin> set (new_events w (snd (fetch_image E title (Str u) score w))))"
proof (cases "http_get E u")
  case (Inl e)
  show ?thesis by (rule no_open_get_raises [OF vu pos Inl])
next
  case (Inr status)
  show ?thesis
  proof (cases "status = 200")
    case False
    show ?thesis by (rule no_open_bad_status [OF vu pos Inr False])
  next
    case True
    with Inr have g: "http_get E u = Inr 200" by simp
    show ?thesis
    proof (cases "http_read E u")
      case (Inl e)
      show ?thesis by (rule no_open_read_raises [OF vu pos g Inl])
    next
      case (Inr B)
      with nr g have False by blast
      then show ?thesis ..
    qed
  qed
qed

lemma fetch_image_no_open:
  assumes "invalid_url url \<or> permits w = 0 \<or>
           (\<exists>u. url = Str u \<and> (http_get E u = Inr 200 \<longrightarrow> (\<forall>B. http_read E u \<noteq> Inr B)))"
  shows "files (snd (fetch_image E title url score w)) = files w \<and>
         (\<forall>p c. EvOpen p \<notin> set (new_events w (snd (fetch_image E title url score w))) \<and>
                EvWrite p c \<notin> set (new_events w (snd (fetch_image E title url score w))))"
proof (cases "invalid_url url")
  case True
  then show ?thesis by (rule no_open_invalid)
next
  case valid: False
  show ?thesis
  proof (cases "permits w = 0")
    case True
    with valid show ?thesis by (rule no_open_suspended)
  next
    case False
    then have pos: "0 < permits w" by simp
    from assms valid False obtain u where u: "url = Str u"
      and nr: "http_get E u = Inr 200 \<longrightarrow> (\<forall>B. http_read E u \<noteq> Inr B)"
      by blast
    from valid u have vu: "\<not> invalid_url (Str u)" by simp
    show ?thesis unfolding u by (rule no_open_valid [OF vu pos nr])
  qed
qed

subsection \<open>C10: the file is opened after the body was read\<close>

text \<open>
  C10: an invocation opens the target file, or changes the files at all, only when the
  response status was 200 and the whole body was read, and then the first four events of
  the invocation are acquire, request, read, open, in this order. So when the request or
  the read of the body raises (a transport error or a timeout), the files are what they
  were: the invocation neither opens nor writes a file.
\<close>

theorem file_opened_after_body_read:
  "((\<exists>p. EvOpen p \<in> set (new_events w (snd (fetch_image E title url score w)))) \<or>
    files (snd (fetch_image E title url score w)) \<noteq> files w \<longrightarrow>
      (\<exists>u B. url = Str u \<and> http_get E u = Inr 200 \<and> http_read E u = Inr B \<and>
             take 4 (new_events w (snd (fetch_image E title url score w))) =
               [EvAcquire, EvGet u, EvRead u, EvOpen (image_path title)])) \<and>
   (url = Str u \<and>
    ((\<exists>e. http_get E u = Inl e) \<or> (http_get E u = Inr 200 \<and> (\<exists>e. http_read E u = Inl e))) \<longrightarrow>
      files (snd (fetch_image E title url score w)) = files w \<and>
      (\<forall>p c. EvOpen p \<notin> set (new_events w (snd (fetch_image E title url score w))) \<and>
             EvWrite p c \<notin> set (new_events w (snd (fetch_image E title url score w)))))"
proof (rule conjI; rule impI)
  assume a: "(\<exists>p. EvOpen p \<in> set (new_events w (snd (fetch_image E title url score w)))) \<or>
    files (snd (fetch_image E title url score w)) \<noteq> files w"
  have n: "\<not> (invalid_url url \<or> permits w = 0 \<or>
           (\<exists>u. url = Str u \<and> (http_get E u = Inr 200 \<longrightarrow> (\<forall>B. http_read E u \<noteq> Inr B))))"
  proof
    assume "invalid_url url \<or> permits w = 0 \<or>
           (\<exists>u. url = Str u \<and> (http_get E u = Inr 200 \<longrightarrow> (\<forall>B. http_read E u \<noteq> Inr B)))"
    from fetch_image_no_open [where title = title and score = score, OF this] a show False
      by blast
  qed
  then have valid: "\<not> invalid_url url" and pos: "0 < permits w" by simp_all
  from valid obtain u where u: "url = Str u" by (cases url) simp_all
  from n u have "\<not> (http_get E u = Inr 200 \<longrightarrow> (\<forall>B. http_read E u \<noteq> Inr B))" by blast
  then obtain B where g: "http_get E u = Inr 200" and r: "http_read E u = Inr B" by blast
  from valid u have vu: "\<not> invalid_url (Str u)" by simp
  have "take 4 (new_events w (snd (fetch_image E title (Str u) score w))) =
           [EvAcquire, EvGet u, EvRead u, EvOpen (image_path title)]"
    by (rule fetch_image_reads_before_open [OF vu pos g r])
  with u g r show "\<exists>u B. url = Str u \<and> http_get E u = Inr 200 \<and> http_read E u = Inr B \<and>
             take 4 (new_events w (snd (fetch_image E title url score w))) =
               [EvAcquire, EvGet u, EvRead u, EvOpen (image_path title)]"
    by blast
next
  assume a: "url = Str u \<and>
    ((\<exists>e. http_get E u = Inl e) \<or> (http_get E u = Inr 200 \<and> (\<exists>e. http_read E u = Inl e)))"
  then have "http_get E u = Inr 200 \<longrightarrow> (\<forall>B. http_read E u \<noteq> Inr B)" by auto
  with a have "invalid_url url \<or> permits w = 0 \<or>
           (\<exists>u. url = Str u \<and> (http_get E u = Inr 200 \<longrightarrow> (\<forall>B. http_read E u \<noteq> Inr B)))"
    by blast
  from fetch_image_no_open [where title = title and score = score, OF this]
  show "files (snd (fetch_image E title url score w)) = files w \<and>
      (\<forall>p c. EvOpen p \<notin> set (new_events w (snd (fetch_image E title url score w))) \<and>
             EvWrite p c \<notin> set (new_events w (snd (fetch_image E title url score w))))" .
qed

lemma fetch_image_log_ok:
  assumes "\<forall>r. append_fails E r = None"
  shows "(\<forall>e. fst (fetch_image E title url score w) \<noteq> Raised e) \<and>
         (invalid_url url \<or> 0 < permits w \<longrightarrow> (\<exists>v. fst (fetch_image E title url score w) = Returned v))"
  using assms
  by (auto simp: fetch_defs split: url_value.splits sum.splits option.splits prod.splits outcome.splits)

lemma calls_invalid:
  "invalid_url url \<Longrightarrow> recorder_calls w (snd (fetch_image E title url score w)) = 1"
  by (simp add: fetch_image_invalid report_eq recorder_calls_def new_events_def split: option.split)

lemma calls_suspended:
  assumes "\<not> invalid_url url" and "permits w = 0"
  shows "recorder_calls w (snd (fetch_image E title url score w)) = 0"
  unfolding fetch_image_suspended [OF assms] by (simp add: recorder_calls_def new_events_def)

lemma calls_get_raises:
  assumes vu: "\<not> invalid_url (Str u)" and pos: "0 < permits w" and g: "http_get E u = Inl e"
  shows "recorder_calls w (snd (fetch_image E title (Str u) score w)) = 1"
  unfolding fetch_image_admitted [OF vu pos]
  by (simp add: download_get_raises [OF g] handle_errors_raised report_eq Let_def
      recorder_calls_def new_events_def split: option.split)

lemma calls_bad_status:
  assumes vu: "\<not> invalid_url (Str u)" and pos: "0 < permits w" and g: "http_get E u = Inr status"
    and ne: "status \<noteq> 200"
  shows "recorder_calls w (snd (fetch_image E title (Str u) score w)) =
     (case append_fails E \<lparr>rec_title = title, rec_url = Str u,
             rec_reason = ''http_status_'' @ str_nat status, rec_traceback = None\<rparr> of
        None \<Rightarrow> 1 | Some e \<Rightarrow> 2)"
  unfolding fetch_image_admitted [OF vu pos]
  by (simp add: download_bad_status [OF g ne] report_eq handle_errors_case_option
      handle_errors_raised Let_def recorder_calls_def new_events_def split: option.split)

lemma download_ok_trace:
  assumes g: "http_get E u = Inr 200"
  shows "filter is_record_ev (trace (snd (download E title u score w))) = filter is_record_ev (trace w)"
  using g by (simp add: download_def Let_def split: sum.split option.split prod.split)

lemma handle_errors_calls:
  "length (filter is_record_ev (trace (snd (handle_errors E title url rw)))) \<le>
     Suc (length (filter is_record_ev (trace (snd rw))))"
  by (simp add: handle_errors_def snd_and_return log_failure_frame split: prod.split outcome.split)

lemma calls_status_ok:
  assumes vu: "\<not> invalid_url (Str u)" and pos: "0 < permits w" and g: "http_get E u = Inr 200"
  shows "recorder_calls w (snd (fetch_image E title (Str u) score w)) \<le> 1"
proof -
  let ?w0 = "w\<lparr>permits := permits w - 1, trace := trace w @ [EvAcquire]\<rparr>"
  let ?d = "download E title u score ?w0"
  let ?h = "handle_errors E title (Str u) ?d"
  have p: "take (length (trace ?w0)) (trace (snd ?h)) = trace ?w0"
    using download_prefix handle_errors_prefix by (rule take_prefix_trans)
  then obtain more where m: "trace (snd ?h) = trace ?w0 @ more"
    by (metis append_take_drop_id)
  have "length (filter is_record_ev (trace (snd ?h))) \<le>
          Suc (length (filter is_record_ev (trace (snd ?d))))"
    by (rule handle_errors_calls)
  also have "filter is_record_ev (trace (snd ?d)) = filter is_record_ev (trace ?w0)"
    by (rule download_ok_trace [OF g])
  finally have "length (filter is_record_ev more) \<le> 1"
    using m by simp
  moreover have "trace (snd (fetch_image E title (Str u) score w)) =
      trace w @ EvAcquire # more @ [EvRelease]"
    using m by (simp add: fetch_image_admitted [OF vu pos] Let_def)
  ultimately show ?thesis by (simp add: recorder_calls_def new_events_def)
qed

lemma fetch_image_two_calls:
  "recorder_calls w (snd (fetch_image E title url score w)) \<le> 2 \<and>
   (recorder_calls w (snd (fetch_image E title url score w)) = 2 \<longrightarrow>
      (case url of
         NaN \<Rightarrow> False
       | Str u \<Rightarrow>
           (case http_get E u of
              Inl e \<Rightarrow> False
            | Inr status \<Rightarrow>
                status \<noteq> 200 \<and>
                append_fails E \<lparr>rec_title = title, rec_url = url,
                  rec_reason = ''http_status_'' @ str_nat status, rec_traceback = None\<rparr> \<noteq> None)))"
proof (cases "invalid_url url")
  case True
  from calls_invalid [OF True, of w E title score] show ?thesis by simp
next
  case valid: False
  then obtain u where u: "url = Str u" by (cases url) simp_all
  from valid u have vu: "\<not> invalid_url (Str u)" by simp
  show ?thesis
  proof (cases "permits w = 0")
    case True
    from calls_suspended [OF valid True, of E title score] show ?thesis by simp
  next
    case False
    then have pos: "0 < permits w" by simp
    show ?thesis
    proof (cases "http_get E u")
      case (Inl e)
      from calls_get_raises [OF vu pos Inl, of title score] u show ?thesis by simp
    next
      case (Inr status)
      show ?thesis
      proof (cases "status = 200")
        case False
        from calls_bad_status [OF vu pos Inr False, of title score] u Inr False show ?thesis
          by (simp split: option.splits)
      next
        case True
        with Inr have g: "http_get E u = Inr 200" by simp
        from calls_status_ok [OF vu pos g, of title score] u show ?thesis by simp
      qed
    qed
  qed
qed

lemma gather_log_ok:
  assumes "\<forall>i r. append_fails (Es i) r = None"
  shows "0 < permits w \<Longrightarrow> \<exists>vs w'. gather Es i rows w = (Returned vs, w')"
proof (induction rows arbitrary: i w)
  case Nil
  show ?case by simp
next
  case (Cons r rows)
  from assms have ok: "\<forall>q. append_fails (Es i) q = None" by simp
  from fetch_image_log_ok [OF ok, where title = "row_title r" and url = "poster r" and
      score = "imdb_score r" and w = w] Cons.prems
  obtain v where v: "fst (fetch_image (Es i) (row_title r) (poster r) (imdb_score r) w) = Returned v"
    by blast
  obtain w1 where f: "fetch_image (Es i) (row_title r) (poster r) (imdb_score r) w = (Returned v, w1)"
    using v by (cases "fetch_image (Es i) (row_title r) (poster r) (imdb_score r) w") simp
  have "permits w1 = permits w"
    using fetch_image_permits [of "Es i" "row_title r" "poster r" "imdb_score r" w] f by simp
  with Cons.prems have "0 < permits w1" by simp
  from Cons.IH [OF this, of "Suc i"] obtain vs w' where "gather Es (Suc i) rows w1 = (Returned vs, w')"
    by blast
  with f show ?case by simp
qed

lemma scrape_all_log_ok:
  assumes "\<forall>i r. append_fails (Es i) r = None"
  shows "\<exists>results. fst (scrape_all Es df w) = Returned results"
proof -
  have "0 < permits (w\<lparr>permits := CONCURRENCY\<rparr>)" by (simp add: CONCURRENCY_def)
  from gather_log_ok [OF assms this] obtain vs w' where
    "gather Es 0 df (w\<lparr>permits := CONCURRENCY\<rparr>) = (Returned vs, w')" by blast
  then show ?thesis by (simp add: scrape_all_def)
qed

subsection \<open>C6: when the failure recorder raises\<close>







subsection \<open>C1: every row is accounted for once\<close>

text \<open>
  C1, as the code has it. A fetch invocation that returns a pair has not called the
  failure recorder and has left the log as it was. One that returns \<^verbatim>\<open>None\<close> has called
  the recorder once or twice, and one that raises has called it at least once. Two calls
  happen only when the response status was not 200 and writing the report of that status
  raised. When every write to the failure log succeeds, an invocation that returns
  \<^verbatim>\<open>None\<close> has called the recorder exactly once and has added exactly one line of its
  row to the log, no invocation raises, the run completes, and every row has exactly one
  of two contributions: one entry of the list \<^verbatim>\<open>scrape_all\<close> returns and no line of the
  log, or one line of the log and no entry.
\<close>

theorem every_row_accounted_once:
  "(case fst (fetch_image E title url score w) of
      Returned None \<Rightarrow>
        recorder_calls w (snd (fetch_image E title url score w)) = 1 \<or>
        recorder_calls w (snd (fetch_image E title url score w)) = 2
    | Returned (Some p) \<Rightarrow>
        faillog (snd (fetch_image E title url score w)) = faillog w \<and>
        recorder_calls w (snd (fetch_image E title url score w)) = 0
    | Raised e \<Rightarrow> 1 \<le> recorder_calls w (snd (fetch_image E title url score w))
    | Suspended \<Rightarrow> snd (fetch_image E title url score w) = w) \<and>
   (recorder_calls w (snd (fetch_image E title url score w)) = 2 \<longrightarrow>
      (case url of
         NaN \<Rightarrow> False
       | Str u \<Rightarrow>
           (case http_get E u of
              Inl e \<Rightarrow> False
            | Inr status \<Rightarrow>
                status \<noteq> 200 \<and>
                append_fails E \<lparr>rec_title = title, rec_url = url,
                  rec_reason = ''http_status_'' @ str_nat status, rec_traceback = None\<rparr> \<noteq> None))) \<and>
   ((\<forall>r. append_fails E r = None) \<longrightarrow>
      (case fst (fetch_image E title url score w) of
         Returned None \<Rightarrow>
           recorder_calls w (snd (fetch_image E title url score w)) = 1 \<and>
           (\<exists>l. failure_line title url l \<and>
                faillog (snd (fetch_image E title url score w)) = faillog w @ l)
       | Returned (Some p) \<Rightarrow>
           recorder_calls w (snd (fetch_image E title url score w)) = 0 \<and>
           faillog (snd (fetch_image E title url score w)) = faillog w
       | Raised e \<Rightarrow> False
       | Suspended \<Rightarrow> snd (fetch_image E title url score w) = w)) \<and>
   ((\<forall>i r. append_fails (Es i) r = None) \<longrightarrow>
      (\<exists>results w1 cs ls.
           scrape_all Es df w0 = (Returned results, w1) \<and>
           length cs = length df \<and> length ls = length df \<and> results = concat cs \<and>
           faillog w1 = faillog w0 @ concat ls \<and>
           (\<forall>k < length df.
              (\<exists>p. cs ! k = [p] \<and> ls ! k = []) \<or>
              (cs ! k = [] \<and> failure_line (row_title (df ! k)) (poster (df ! k)) (ls ! k)))))"
proof (intro conjI)
  obtain res w' where f: "fetch_image E title url score w = (res, w')"
    by (cases "fetch_image E title url score w")
  from fetch_image_accounts [OF f] f
  show "case fst (fetch_image E title url score w) of
      Returned None \<Rightarrow>
        recorder_calls w (snd (fetch_image E title url score w)) = 1 \<or>
        recorder_calls w (snd (fetch_image E title url score w)) = 2
    | Returned (Some p) \<Rightarrow>
        faillog (snd (fetch_image E title url score w)) = faillog w \<and>
        recorder_calls w (snd (fetch_image E title url score w)) = 0
    | Raised e \<Rightarrow> 1 \<le> recorder_calls w (snd (fetch_image E title url score w))
    | Suspended \<Rightarrow> snd (fetch_image E title url score w) = w"
    by (auto split: outcome.splits option.splits)
next
  show "recorder_calls w (snd (fetch_image E title url score w)) = 2 \<longrightarrow>
      (case url of
         NaN \<Rightarrow> False
       | Str u \<Rightarrow>
           (case http_get E u of
              Inl e \<Rightarrow> False
            | Inr status \<Rightarrow>
                status \<noteq> 200 \<and>
                append_fails E \<lparr>rec_title = title, rec_url = url,
                  rec_reason = ''http_status_'' @ str_nat status, rec_traceback = None\<rparr> \<noteq> None))"
    using fetch_image_two_calls [where w = w and E = E and title = title and url = url and
        score = score] by (rule conjunct2)
next
  show "(\<forall>r. append_fails E r = None) \<longrightarrow>
      (case fst (fetch_image E title url score w) of
         Returned None \<Rightarrow>
           recorder_calls w (snd (fetch_image E title url score w)) = 1 \<and>
           (\<exists>l. failure_line title url l \<and>
                faillog (snd (fetch_image E title url score w)) = faillog w @ l)
       | Returned (Some p) \<Rightarrow>
           recorder_calls w (snd (fetch_image E title url score w)) = 0 \<and>
           faillog (snd (fetch_image E title url score w)) = faillog w
       | Raised e \<Rightarrow> False
       | Suspended \<Rightarrow> snd (fetch_image E title url score w) = w)"
  proof
    assume ok: "\<forall>r. append_fails E r = None"
    obtain res w' where f: "fetch_image E title url score w = (res, w')"
      by (cases "fetch_image E title url score w")
    from fetch_image_accounts_log_ok [OF ok f] f
    show "case fst (fetch_image E title url score w) of
         Returned None \<Rightarrow>
           recorder_calls w (snd (fetch_image E title url score w)) = 1 \<and>
           (\<exists>l. failure_line title url l \<and>
                faillog (snd (fetch_image E title url score w)) = faillog w @ l)
       | Returned (Some p) \<Rightarrow>
           recorder_calls w (snd (fetch_image E title url score w)) = 0 \<and>
           faillog (snd (fetch_image E title url score w)) = faillog w
       | Raised e \<Rightarrow> False
       | Suspended \<Rightarrow> snd (fetch_image E title url score w) = w"
      by (auto split: outcome.splits option.splits dest: logged_once_line)
  qed
next
  show "(\<forall>i r. append_fails (Es i) r = None) \<longrightarrow>
      (\<exists>results w1 cs ls.
           scrape_all Es df w0 = (Returned results, w1) \<and>
           length cs = length df \<and> length ls = length df \<and> results = concat cs \<and>
           faillog w1 = faillog w0 @ concat ls \<and>
           (\<forall>k < length df.
              (\<exists>p. cs ! k = [p] \<and> ls ! k = []) \<or>
              (cs ! k = [] \<and> failure_line (row_title (df ! k)) (poster (df ! k)) (ls ! k))))"
  proof
    assume ok: "\<forall>i r. append_fails (Es i) r = None"
    from scrape_all_log_ok [OF ok, of df w0] obtain results where
      "fst (scrape_all Es df w0) = Returned results" by blast
    then obtain w1 where s: "scrape_all Es df w0 = (Returned results, w1)"
      by (cases "scrape_all Es df w0") simp
    from scrape_all_accounts [OF ok s] s
    show "\<exists>results w1 cs ls.
           scrape_all Es df w0 = (Returned results, w1) \<and>
           length cs = length df \<and> length ls = length df \<and> results = concat cs \<and>
           faillog w1 = faillog w0 @ concat ls \<and>
           (\<forall>k < length df.
              (\<exists>p. cs ! k = [p] \<and> ls ! k = []) \<or>
              (cs ! k = [] \<and> failure_line (row_title (df ! k)) (poster (df ! k)) (ls ! k)))"
      by blast
  qed
qed

section \<open>Concrete runs\<close>

lemma sanitize_Up: "sanitize_filename ''Up'' 100 = ''Up.jpg''"
  by (simp add: sanitize_filename_def slice_to_def safe_char_def in_range_def)

lemma image_path_Up: "image_path ''Up'' = ''poster_images/Up.jpg''"
  by (simp add: image_path_def sanitize_Up)

lemma str_nat_404: "str_nat 404 = ''404''"
  by (simp add: str_nat.simps)

lemma invalid_httpfoo: "\<not> invalid_url (Str ''httpfoo'')"
  by (simp add: startswith_def)

lemma trace_world0: "trace world0 = []" "faillog world0 = []" "files world0 = (\<lambda>p. None)"
  by (simp_all add: world0_def)

lemma env_ok_answers:
  "append_fails env_ok r = None" "http_get env_ok u = Inr 200" "http_read env_ok u = Inr ''JFIF''"
  "open_fails env_ok p = None" "write_fails env_ok p c = None"
  by (simp_all add: env_ok_def)

lemma env_log_down_answers:
  "append_fails env_log_down r = Some (OtherException ''PermissionError'', 0)"
  "http_get env_log_down u = Inr 200" "http_read env_log_down u = Inr ''JFIF''"
  "open_fails env_log_down p = None" "write_fails env_log_down p c = None"
  by (simp_all add: env_log_down_def env_ok_def)

text \<open>
  C3 says that every row whose URL is absent, empty or does not look like an HTTP(S) URL
  returns the no-success outcome after one report, with no request and no permit. With a
  failure log that cannot be written the worker does not return: the exception of
  \<^verbatim>\<open>log_failure\<close> leaves it. And the code tests the prefix \<^verbatim>\<open>http\<close> only:
  \<^verbatim>\<open>httpfoo\<close> begins with neither \<^verbatim>\<open>http://\<close> nor \<^verbatim>\<open>https://\<close>, yet the worker takes
  a permit and calls \<^verbatim>\<open>session.get\<close> on it; the reason logged is then the name of the
  exception the request raised.
\<close>

theorem fetch_image_invalid_url_reported_counterexample:
  "fst (fetch_image env_log_down ''Up'' NaN (8::nat) world0) = Raised (OtherException ''PermissionError'') \<and>
   take 7 ''httpfoo'' \<noteq> ''http://'' \<and> take 8 ''httpfoo'' \<noteq> ''https://'' \<and>
   new_events world0 (snd (fetch_image env_bad_url ''Up'' (Str ''httpfoo'') (8::nat) world0)) =
     [EvAcquire, EvGet ''httpfoo'',
      EvRecord \<lparr>rec_title = ''Up'', rec_url = Str ''httpfoo'', rec_reason = ''InvalidURL'',
                 rec_traceback = None\<rparr>,
      EvRelease]"
proof -
  have 1: "fst (fetch_image env_log_down ''Up'' NaN (8::nat) world0) =
      Raised (OtherException ''PermissionError'')"
    by (simp add: fetch_image_def report_eq env_log_down_answers)
  have g: "http_get env_bad_url ''httpfoo'' = Inl (ClientError ''InvalidURL'')"
    by (simp add: env_bad_url_def env_ok_def)
  have a: "append_fails env_bad_url r = None" for r
    by (simp add: env_bad_url_def env_ok_def)
  have 2: "new_events world0 (snd (fetch_image env_bad_url ''Up'' (Str ''httpfoo'') (8::nat) world0)) =
     [EvAcquire, EvGet ''httpfoo'',
      EvRecord \<lparr>rec_title = ''Up'', rec_url = Str ''httpfoo'', rec_reason = ''InvalidURL'',
                 rec_traceback = None\<rparr>,
      EvRelease]"
    unfolding fetch_image_admitted [OF invalid_httpfoo, of world0, simplified permits_world0, simplified]
    by (simp add: download_get_raises [OF g] handle_errors_raised report_eq a Let_def
        new_events_def trace_world0)
  from 1 2 show ?thesis by simp
qed

text \<open>
  The theorem of C3 at a missing URL with a log that accepts the record, and at
  \<^verbatim>\<open>not-a-url\<close> with a log that cannot be opened.
\<close>

theorem fetch_image_invalid_url_reported_witness:
  "invalid_url NaN \<and> invalid_url (Str '''') \<and> invalid_url (Str ''not-a-url'') \<and>
   new_events world0 (snd (fetch_image env_ok ''Up'' NaN (8::nat) world0)) =
     [EvRecord \<lparr>rec_title = ''Up'', rec_url = NaN, rec_reason = ''invalid_or_missing_url'',
                 rec_traceback = None\<rparr>] \<and>
   fst (fetch_image env_ok ''Up'' NaN (8::nat) world0) = Returned None \<and>
   faillog (snd (fetch_image env_ok ''Up'' NaN (8::nat) world0)) =
     json_dumps \<lparr>rec_title = ''Up'', rec_url = NaN, rec_reason = ''invalid_or_missing_url'',
                  rec_traceback = None\<rparr> @ [newline] \<and>
   fst (fetch_image env_log_down ''Up'' (Str ''not-a-url'') (8::nat) world0) =
     Raised (OtherException ''PermissionError'') \<and>
   faillog (snd (fetch_image env_log_down ''Up'' (Str ''not-a-url'') (8::nat) world0)) = []"
proof -
  have i: "invalid_url NaN" "invalid_url (Str '''')" "invalid_url (Str ''not-a-url'')"
    by (simp_all add: startswith_def)
  note t = fetch_image_invalid_url_reported [of NaN world0 env_ok "''Up''" "8::nat"]
  note d = fetch_image_invalid_url_reported [of "Str ''not-a-url''" world0 env_log_down "''Up''" "8::nat"]
  from t d i show ?thesis by (simp add: env_ok_answers env_log_down_answers trace_world0)
qed

lemma env_404_answers:
  "append_fails env_404 r = None" "http_get env_404 u = Inr 404"
  by (simp_all add: env_404_def env_ok_def)

lemma env_404_retry_answers:
  "http_get env_404_retry u = Inr 404"
  "append_fails env_404_retry \<lparr>rec_title = t, rec_url = v, rec_reason = ''http_status_404'',
     rec_traceback = tb\<rparr> = Some (OtherException ''OSError'', 22)"
  "append_fails env_404_retry \<lparr>rec_title = t, rec_url = v, rec_reason = ''unexpected_OSError'',
     rec_traceback = tb\<rparr> = None"
  "format_exc env_404_retry e = ''Traceback (most recent call last)''"
  by (simp_all add: env_404_retry_def env_ok_def)

lemma torn_404:
  "take 22 (json_dumps \<lparr>rec_title = ''Up'', rec_url = Str ''http://img/up.jpg'',
      rec_reason = ''http_status_404'', rec_traceback = None\<rparr> @ [newline]) =
   [CHR ''{'', dq] @ ''title'' @ [dq] @ '': '' @ [dq] @ ''Up'' @ [dq] @ '', '' @ [dq] @ ''url'' @ [dq] @ '':''"
  by (simp add: json_dumps_def encode_basestring_def escape_char_def)

lemma fetch_404_retry:
  "fetch_image env_404_retry ''Up'' (Str ''http://img/up.jpg'') (8::nat) world0 =
     (Returned None,
      world0\<lparr>trace :=
          [EvAcquire, EvGet ''http://img/up.jpg'',
           EvRecord \<lparr>rec_title = ''Up'', rec_url = Str ''http://img/up.jpg'',
             rec_reason = ''http_status_404'', rec_traceback = None\<rparr>,
           EvRecord \<lparr>rec_title = ''Up'', rec_url = Str ''http://img/up.jpg'',
             rec_reason = ''unexpected_OSError'',
             rec_traceback = Some ''Traceback (most recent call last)''\<rparr>,
           EvRelease],
        faillog :=
          take 22 (json_dumps \<lparr>rec_title = ''Up'', rec_url = Str ''http://img/up.jpg'',
             rec_reason = ''http_status_404'', rec_traceback = None\<rparr> @ [newline]) @
          json_dumps \<lparr>rec_title = ''Up'', rec_url = Str ''http://img/up.jpg'',
             rec_reason = ''unexpected_OSError'',
             rec_traceback = Some ''Traceback (most recent call last)''\<rparr> @ [newline]\<rparr>)"
proof -
  have g: "http_get env_404_retry ''http://img/up.jpg'' = Inr 404" by (rule env_404_retry_answers)
  have ne: "(404::nat) \<noteq> 200" by simp
  show ?thesis
    unfolding fetch_image_admitted [OF valid_http, of world0, simplified permits_world0, simplified]
    by (simp add: download_bad_status [OF g ne] report_eq handle_errors_case_option
        handle_errors_raised Let_def str_nat_404 env_404_retry_answers world0_def CONCURRENCY_def
        del: take_append)
qed

text \<open>
  C4 says that a row whose response status is not 200 is logged with the reason
  \<^verbatim>\<open>http_status_<code>\<close>, by exactly one failure record. Here the status is 404 and the
  first write to the log stops after 22 characters: the row leaves in the log the torn
  beginning of the record of the status, and after it, on the same line, one record whose
  reason is \<^verbatim>\<open>unexpected_OSError\<close>.
\<close>

theorem fetch_image_bad_status_counterexample:
  "http_get env_404_retry ''http://img/up.jpg'' = Inr 404 \<and>
   fst (fetch_image env_404_retry ''Up'' (Str ''http://img/up.jpg'') (8::nat) world0) = Returned None \<and>
   faillog (snd (fetch_image env_404_retry ''Up'' (Str ''http://img/up.jpg'') (8::nat) world0)) =
     [CHR ''{'', dq] @ ''title'' @ [dq] @ '': '' @ [dq] @ ''Up'' @ [dq] @ '', '' @ [dq] @ ''url'' @ [dq] @ '':'' @
     json_dumps \<lparr>rec_title = ''Up'', rec_url = Str ''http://img/up.jpg'',
       rec_reason = ''unexpected_OSError'',
       rec_traceback = Some ''Traceback (most recent call last)''\<rparr> @ [newline]"
  by (simp add: fetch_404_retry env_404_retry_answers torn_404 del: take_append)

text \<open>
  The theorem of C4 at status 404, with a log that accepts the record and with a log
  whose first write for the row stops half way.
\<close>

theorem fetch_image_bad_status_witness:
  "\<not> invalid_url (Str ''http://img/up.jpg'') \<and> 0 < permits world0 \<and>
   http_get env_404 ''http://img/up.jpg'' = Inr 404 \<and> (404::nat) \<noteq> 200 \<and>
   files (snd (fetch_image env_404 ''Up'' (Str ''http://img/up.jpg'') (8::nat) world0)) = files world0 \<and>
   fst (fetch_image env_404 ''Up'' (Str ''http://img/up.jpg'') (8::nat) world0) = Returned None \<and>
   new_events world0 (snd (fetch_image env_404 ''Up'' (Str ''http://img/up.jpg'') (8::nat) world0)) =
     [EvAcquire, EvGet ''http://img/up.jpg'',
      EvRecord \<lparr>rec_title = ''Up'', rec_url = Str ''http://img/up.jpg'',
        rec_reason = ''http_status_404'', rec_traceback = None\<rparr>,
      EvRelease] \<and>
   faillog (snd (fetch_image env_404 ''Up'' (Str ''http://img/up.jpg'') (8::nat) world0)) =
     json_dumps \<lparr>rec_title = ''Up'', rec_url = Str ''http://img/up.jpg'',
        rec_reason = ''http_status_404'', rec_traceback = None\<rparr> @ [newline] \<and>
   new_events world0 (snd (fetch_image env_404_retry ''Up'' (Str ''http://img/up.jpg'') (8::nat) world0)) =
     [EvAcquire, EvGet ''http://img/up.jpg'',
      EvRecord \<lparr>rec_title = ''Up'', rec_url = Str ''http://img/up.jpg'',
        rec_reason = ''http_status_404'', rec_traceback = None\<rparr>,
      EvRecord \<lparr>rec_title = ''Up'', rec_url = Str ''http://img/up.jpg'',
        rec_reason = ''unexpected_OSError'',
        rec_traceback = Some ''Traceback (most recent call last)''\<rparr>,
      EvRelease] \<and>
   str_nat 404 = ''404'' \<and> decimal_value ''404'' = 404"
proof -
  note t = fetch_image_bad_status [of "''http://img/up.jpg''" world0 env_404 404 "''Up''" "8::nat",
      THEN conjunct1]
  note r = fetch_image_bad_status [of "''http://img/up.jpg''" world0 env_404_retry 404 "''Up''" "8::nat",
      THEN conjunct1]
  note v = fetch_image_bad_status [of "''http://img/up.jpg''" world0 env_404 404 "''Up''" "8::nat",
      THEN conjunct2, THEN conjunct2, THEN conjunct2, THEN conjunct1]
  from v have d: "decimal_value ''404'' = 404" by (simp add: str_nat_404)
  from t r valid_http d show ?thesis
    by (simp add: permits_world0 env_404_answers env_404_retry_answers str_nat_404 trace_world0
        del: take_append)
qed

lemma fetch_ok_Up:
  "fetch_image env_ok ''Up'' (Str ''http://img/up.jpg'') (8::nat) w =
     (if permits w = 0 then (Suspended, w)
      else (Returned (Some (''poster_images/Up.jpg'', 8)),
            w\<lparr>files := (files w)(''poster_images/Up.jpg'' \<mapsto> ''JFIF''),
              trace := trace w @ [EvAcquire, EvGet ''http://img/up.jpg'', EvRead ''http://img/up.jpg'',
                EvOpen ''poster_images/Up.jpg'', EvWrite ''poster_images/Up.jpg'' ''JFIF'',
                EvRelease]\<rparr>))"
proof (cases "permits w = 0")
  case True
  with valid_http show ?thesis by (simp add: fetch_image_suspended)
next
  case False
  then have pos: "0 < permits w" by simp
  have "fetch_image env_ok ''Up'' (Str ''http://img/up.jpg'') (8::nat) w =
     (Returned (Some (image_path ''Up'', 8)),
      w\<lparr>files := (files w)(image_path ''Up'' \<mapsto> ''JFIF''),
        trace := trace w @ [EvAcquire, EvGet ''http://img/up.jpg'', EvRead ''http://img/up.jpg'',
          EvOpen (image_path ''Up''), EvWrite (image_path ''Up'') ''JFIF'', EvRelease]\<rparr>)"
    by (rule fetch_image_success [OF valid_http pos]) (rule env_ok_answers)+
  with False show ?thesis by (simp add: image_path_Up)
qed

lemma fetch_ok_missing:
  "fetch_image env_ok ''Lost Reel'' NaN (5::nat) w =
     (Returned None,
      w\<lparr>trace := trace w @ [EvRecord \<lparr>rec_title = ''Lost Reel'', rec_url = NaN,
             rec_reason = ''invalid_or_missing_url'', rec_traceback = None\<rparr>],
        faillog := faillog w @ json_dumps \<lparr>rec_title = ''Lost Reel'', rec_url = NaN,
             rec_reason = ''invalid_or_missing_url'', rec_traceback = None\<rparr> @ [newline]\<rparr>)"
  by (simp add: fetch_image_def report_eq env_ok_answers)

lemma scrape_demo:
  "fst (scrape_all (\<lambda>i. env_ok) table_demo world0) = Returned [(''poster_images/Up.jpg'', 8::nat)]"
  by (simp add: scrape_all_def table_demo_def fetch_ok_Up fetch_ok_missing CONCURRENCY_def)

lemma scrape_demo_pair:
  "scrape_all (\<lambda>i. env_ok) table_demo world0 =
     (Returned [(''poster_images/Up.jpg'', 8::nat)], snd (scrape_all (\<lambda>i. env_ok) table_demo world0))"
  using scrape_demo by (metis prod.collapse)

lemma table_demo_rows:
  "length table_demo = 2" "poster (table_demo ! 0) = Str ''http://img/up.jpg''"
  "row_title (table_demo ! 0) = ''Up''" "imdb_score (table_demo ! 0) = 8"
  "poster (table_demo ! Suc 0) = NaN" "row_title (table_demo ! Suc 0) = ''Lost Reel''"
  by (simp_all add: table_demo_def)

text \<open>
  The theorem of C5 at a row whose poster is served, alone and in a table of two rows:
  the title \<^verbatim>\<open>Up\<close> is written at \<^verbatim>\<open>poster_images/Up.jpg\<close>.
\<close>

theorem fetch_image_success_writes_body_witness:
  "\<not> invalid_url (Str ''http://img/up.jpg'') \<and> 0 < permits world0 \<and>
   http_get env_ok ''http://img/up.jpg'' = Inr 200 \<and> http_read env_ok ''http://img/up.jpg'' = Inr ''JFIF'' \<and>
   open_fails env_ok (''poster_images/'' @ sanitize_filename ''Up'' 100) = None \<and>
   write_fails env_ok (''poster_images/'' @ sanitize_filename ''Up'' 100) ''JFIF'' = None \<and>
   fst (fetch_image env_ok ''Up'' (Str ''http://img/up.jpg'') (8::nat) world0) =
     Returned (Some (''poster_images/Up.jpg'', 8::nat)) \<and>
   files (snd (fetch_image env_ok ''Up'' (Str ''http://img/up.jpg'') (8::nat) world0))
     ''poster_images/Up.jpg'' = Some ''JFIF'' \<and>
   faillog (snd (fetch_image env_ok ''Up'' (Str ''http://img/up.jpg'') (8::nat) world0)) = [] \<and>
   scrape_all (\<lambda>i. env_ok) table_demo world0 =
     (Returned [(''poster_images/Up.jpg'', 8::nat)], snd (scrape_all (\<lambda>i. env_ok) table_demo world0)) \<and>
   (\<exists>cs. length cs = length table_demo \<and> [(''poster_images/Up.jpg'', 8::nat)] = concat cs \<and>
         cs ! 0 = [(''poster_images/Up.jpg'', 8::nat)])"
proof -
  note t = fetch_image_success_writes_body [of "''http://img/up.jpg''" world0 env_ok "''JFIF''" "''Up''"
      "8::nat" "\<lambda>i. env_ok" table_demo world0 "[(''poster_images/Up.jpg'', 8::nat)]"
      "snd (scrape_all (\<lambda>i. env_ok) table_demo world0)" 0]
  from t scrape_demo_pair valid_http show ?thesis
    by (simp add: permits_world0 env_ok_answers sanitize_Up table_demo_rows trace_world0)
qed

lemma env_timeout_answers:
  "append_fails env_timeout r = None" "http_get env_timeout u = Inl TimeoutError"
  by (simp_all add: env_timeout_def env_ok_def)

text \<open>
  The theorem of C10 at a download that succeeds (the file is opened) and at a request
  that times out (no file is opened).
\<close>

theorem file_opened_after_body_read_witness:
  "(\<exists>p. EvOpen p \<in> set (new_events world0
      (snd (fetch_image env_ok ''Up'' (Str ''http://img/up.jpg'') (8::nat) world0)))) \<and>
   (\<exists>u B. Str ''http://img/up.jpg'' = Str u \<and> http_get env_ok u = Inr 200 \<and> http_read env_ok u = Inr B \<and>
      take 4 (new_events world0 (snd (fetch_image env_ok ''Up'' (Str ''http://img/up.jpg'') (8::nat) world0))) =
        [EvAcquire, EvGet u, EvRead u, EvOpen (image_path ''Up'')]) \<and>
   http_get env_timeout ''http://img/up.jpg'' = Inl TimeoutError \<and>
   files (snd (fetch_image env_timeout ''Up'' (Str ''http://img/up.jpg'') (8::nat) world0)) = files world0 \<and>
   (\<forall>p c. EvOpen p \<notin> set (new_events world0
              (snd (fetch_image env_timeout ''Up'' (Str ''http://img/up.jpg'') (8::nat) world0))) \<and>
          EvWrite p c \<notin> set (new_events world0
              (snd (fetch_image env_timeout ''Up'' (Str ''http://img/up.jpg'') (8::nat) world0))))"
proof -
  have o: "\<exists>p. EvOpen p \<in> set (new_events world0
      (snd (fetch_image env_ok ''Up'' (Str ''http://img/up.jpg'') (8::nat) world0)))"
    by (simp add: fetch_ok_Up permits_world0 new_events_def trace_world0)
  note t = file_opened_after_body_read [of world0 env_ok "''Up''" "Str ''http://img/up.jpg''" "8::nat"]
  note s = file_opened_after_body_read [of world0 env_timeout "''Up''" "Str ''http://img/up.jpg''" "8::nat"
      "''http://img/up.jpg''"]
  have 1: "\<exists>u B. Str ''http://img/up.jpg'' = Str u \<and> http_get env_ok u = Inr 200 \<and>
      http_read env_ok u = Inr B \<and>
      take 4 (new_events world0 (snd (fetch_image env_ok ''Up'' (Str ''http://img/up.jpg'') (8::nat) world0))) =
        [EvAcquire, EvGet u, EvRead u, EvOpen (image_path ''Up'')]"
    using t o by blast
  have g: "http_get env_timeout ''http://img/up.jpg'' = Inl TimeoutError"
    by (rule env_timeout_answers)
  have 2: "files (snd (fetch_image env_timeout ''Up'' (Str ''http://img/up.jpg'') (8::nat) world0)) =
        files world0 \<and>
   (\<forall>p c. EvOpen p \<notin> set (new_events world0
              (snd (fetch_image env_timeout ''Up'' (Str ''http://img/up.jpg'') (8::nat) world0))) \<and>
          EvWrite p c \<notin> set (new_events world0
              (snd (fetch_image env_timeout ''Up'' (Str ''http://img/up.jpg'') (8::nat) world0))))"
    using s g by blast
  from o 1 g 2 show ?thesis by blast
qed

text \<open>
  C1 says that a fetch invocation that returns no pair has called the failure recorder
  exactly once, and that its row contributes one record to the failure log. Here the
  status is 404 and the first write to the log stops after 22 characters: the worker
  returns \<^verbatim>\<open>None\<close> after two calls of the recorder, and the row has left in the log a
  torn record followed by a whole one.
\<close>

theorem every_row_accounted_once_counterexample:
  "fst (fetch_image env_404_retry ''Up'' (Str ''http://img/up.jpg'') (8::nat) world0) = Returned None \<and>
   recorder_calls world0
     (snd (fetch_image env_404_retry ''Up'' (Str ''http://img/up.jpg'') (8::nat) world0)) = 2 \<and>
   faillog (snd (fetch_image env_404_retry ''Up'' (Str ''http://img/up.jpg'') (8::nat) world0)) =
     [CHR ''{'', dq] @ ''title'' @ [dq] @ '': '' @ [dq] @ ''Up'' @ [dq] @ '', '' @ [dq] @ ''url'' @ [dq] @ '':'' @
     json_dumps \<lparr>rec_title = ''Up'', rec_url = Str ''http://img/up.jpg'',
       rec_reason = ''unexpected_OSError'',
       rec_traceback = Some ''Traceback (most recent call last)''\<rparr> @ [newline]"
  by (simp add: fetch_404_retry recorder_calls_def new_events_def trace_world0 torn_404
      del: take_append)

text \<open>
  The theorem of C1 at that invocation, at a row without a URL whose record is written,
  and at a run over a table of two rows, one served and one without a URL.
\<close>

theorem every_row_accounted_once_witness:
  "recorder_calls world0
     (snd (fetch_image env_404_retry ''Up'' (Str ''http://img/up.jpg'') (8::nat) world0)) = 2 \<and>
   http_get env_404_retry ''http://img/up.jpg'' = Inr 404 \<and>
   append_fails env_404_retry \<lparr>rec_title = ''Up'', rec_url = Str ''http://img/up.jpg'',
     rec_reason = ''http_status_'' @ str_nat 404, rec_traceback = None\<rparr> \<noteq> None \<and>
   (\<forall>r. append_fails env_ok r = None) \<and>
   fst (fetch_image env_ok ''Lost Reel'' NaN (5::nat) world0) = Returned None \<and>
   recorder_calls world0 (snd (fetch_image env_ok ''Lost Reel'' NaN (5::nat) world0)) = 1 \<and>
   (\<exists>l. failure_line ''Lost Reel'' NaN l \<and>
        faillog (snd (fetch_image env_ok ''Lost Reel'' NaN (5::nat) world0)) = faillog world0 @ l) \<and>
   (\<exists>results w1 cs ls.
      scrape_all (\<lambda>i. env_ok) table_demo world0 = (Returned results, w1) \<and>
      length cs = length table_demo \<and> length ls = length table_demo \<and> results = concat cs \<and>
      faillog w1 = faillog world0 @ concat ls \<and>
      (\<forall>k < length table_demo.
         (\<exists>p. cs ! k = [p] \<and> ls ! k = []) \<or>
         (cs ! k = [] \<and> failure_line (row_title (table_demo ! k)) (poster (table_demo ! k)) (ls ! k))))"
proof -
  have c: "recorder_calls world0
     (snd (fetch_image env_404_retry ''Up'' (Str ''http://img/up.jpg'') (8::nat) world0)) = 2"
    by (simp add: fetch_404_retry recorder_calls_def new_events_def trace_world0)
  note t = every_row_accounted_once [where E = env_404_retry and title = "''Up''" and
      url = "Str ''http://img/up.jpg''" and score = "8::nat" and w = world0 and
      Es = "\<lambda>i. env_ok" and df = table_demo and ?w0.0 = world0]
  note s = every_row_accounted_once [where E = env_ok and title = "''Lost Reel''" and
      url = NaN and score = "5::nat" and w = world0 and
      Es = "\<lambda>i. env_ok" and df = table_demo and ?w0.0 = world0]
  from t [THEN conjunct2, THEN conjunct1] c
  have a: "append_fails env_404_retry \<lparr>rec_title = ''Up'', rec_url = Str ''http://img/up.jpg'',
     rec_reason = ''http_status_'' @ str_nat 404, rec_traceback = None\<rparr> \<noteq> None"
    by (simp add: env_404_retry_answers)
  have ok: "\<forall>r. append_fails env_ok r = None" by (simp add: env_ok_answers)
  have m: "fst (fetch_image env_ok ''Lost Reel'' NaN (5::nat) world0) = Returned None"
    by (simp add: fetch_ok_missing)
  from s [THEN conjunct2, THEN conjunct2, THEN conjunct1] ok m
  have b: "recorder_calls world0 (snd (fetch_image env_ok ''Lost Reel'' NaN (5::nat) world0)) = 1 \<and>
     (\<exists>l. failure_line ''Lost Reel'' NaN l \<and>
        faillog (snd (fetch_image env_ok ''Lost Reel'' NaN (5::nat) world0)) = faillog world0 @ l)"
    by simp
  from s [THEN conjunct2, THEN conjunct2, THEN conjunct2] ok
  have d: "\<exists>results w1 cs ls.
      scrape_all (\<lambda>i. env_ok) table_demo world0 = (Returned results, w1) \<and>
      length cs = length table_demo \<and> length ls = length table_demo \<and> results = concat cs \<and>
      faillog w1 = faillog world0 @ concat ls \<and>
      (\<forall>k < length table_demo.
         (\<exists>p. cs ! k = [p] \<and> ls ! k = []) \<or>
         (cs ! k = [] \<and> failure_line (row_title (table_demo ! k)) (poster (table_demo ! k)) (ls ! k)))"
    by simp
  have g: "http_get env_404_retry ''http://img/up.jpg'' = Inr 404" by (rule env_404_retry_answers)
  from c g a ok m b d show ?thesis by blast
qed






subsection \<open>C9: the line of a row without a URL\<close>

text \<open>
  C9 at a row without a URL. The docstrings of the module and of \<^verbatim>\<open>log_failure\<close> say
  that the failure log holds one JSON object per failed attempt. For the row
  \<^verbatim>\<open>Lost Reel\<close>, whose \<^verbatim>\<open>Poster\<close> cell is empty, the line that \<^verbatim>\<open>log_failure\<close> writes
  has, as the value of the key \<^verbatim>\<open>url\<close>, the bare token \<^verbatim>\<open>NaN\<close>: it begins with the
  letter N, with which no JSON value begins, so the line is not a JSON object and a
  reader that follows RFC 8259 rejects it.
\<close>

theorem log_failure_missing_url_line:
  "faillog (snd (fetch_image env_ok ''Lost Reel'' NaN (5::nat) world0)) =
     [CHR ''{'', dq] @ ''title'' @ [dq] @ '': '' @ [dq] @ ''Lost Reel'' @ [dq] @ '', '' @
     [dq] @ ''url'' @ [dq] @ '': NaN, '' @
     [dq] @ ''reason'' @ [dq] @ '': '' @ [dq] @ ''invalid_or_missing_url'' @ [dq] @ '', '' @
     [dq] @ ''traceback'' @ [dq] @ '': null}'' @ [newline] \<and>
   dumps_url NaN = ''NaN'' \<and>
   \<not> json_value_start (hd (dumps_url NaN))"
  by (simp add: fetch_ok_missing trace_world0 json_dumps_def encode_basestring_def escape_char_def
      json_value_start_def in_range_def)

end
